theory Spec2Isabelle
  imports Main "HOL-Library.Sublist"
begin

section \<open>Strings of the host language\<close>

text \<open>
  A JavaScript string is a sequence of UTF-16 code units. A code unit is modelled as a
  natural number, a string as the list of its code units, so that \<open>length\<close> is the
  \<open>.length\<close> of the source and the characters outside ASCII that the source names
  (smart quotes, the full-width colon, CJK ideographs) are ordinary elements.
\<close>

type_synonym jschar = nat
type_synonym jsstring = "jschar list"

definition js :: "string \<Rightarrow> jsstring" where
  "js s = map of_char s"

definition NL :: jschar where
  "NL = 10"

text \<open>The set matched by \<open>\s\<close> and removed by \<open>trim\<close>: WhiteSpace and LineTerminator.\<close>

definition isWhiteSpace :: "jschar \<Rightarrow> bool" where
  "isWhiteSpace c \<longleftrightarrow>
     c = 9 \<or> c = 10 \<or> c = 11 \<or> c = 12 \<or> c = 13 \<or> c = 32 \<or> c = 160 \<or> c = 5760 \<or>
     (8192 \<le> c \<and> c \<le> 8202) \<or> c = 8232 \<or> c = 8233 \<or> c = 8239 \<or> c = 8287 \<or>
     c = 12288 \<or> c = 65279"

text \<open>The characters that \<open>.\<close> does not match.\<close>

definition isLineTerminator :: "jschar \<Rightarrow> bool" where
  "isLineTerminator c \<longleftrightarrow> c = 10 \<or> c = 13 \<or> c = 8232 \<or> c = 8233"

definition dropWhileEnd :: "('a \<Rightarrow> bool) \<Rightarrow> 'a list \<Rightarrow> 'a list" where
  "dropWhileEnd p xs = rev (dropWhile p (rev xs))"

definition trim :: "jsstring \<Rightarrow> jsstring" where
  "trim s = dropWhileEnd isWhiteSpace (dropWhile isWhiteSpace s)"

definition startsWith :: "jsstring \<Rightarrow> jsstring \<Rightarrow> bool" where
  "startsWith s p \<longleftrightarrow> take (length p) s = p"

definition endsWith :: "jsstring \<Rightarrow> jsstring \<Rightarrow> bool" where
  "endsWith s p \<longleftrightarrow> length p \<le> length s \<and> drop (length s - length p) s = p"

text \<open>\<open>s.includes(p)\<close>: \<open>p\<close> occurs in \<open>s\<close> as a contiguous block.\<close>

fun includesStr :: "jsstring \<Rightarrow> jsstring \<Rightarrow> bool" where
  "includesStr [] p = (p = [])"
| "includesStr (c # cs) p = (startsWith (c # cs) p \<or> includesStr cs p)"

text \<open>\<open>s.split('\n')\<close> and \<open>lines.join('\n')\<close>.\<close>

fun split_nl :: "jsstring \<Rightarrow> jsstring list" where
  "split_nl [] = [[]]"
| "split_nl (c # cs) =
     (if c = NL then [] # split_nl cs
      else (case split_nl cs of l # ls \<Rightarrow> (c # l) # ls | [] \<Rightarrow> [[c]]))"

fun join_nl :: "jsstring list \<Rightarrow> jsstring" where
  "join_nl [] = []"
| "join_nl [l] = l"
| "join_nl (l # ls) = l @ NL # join_nl ls"

text \<open>
  \<open>s.replace(/\n{3,}/g, '\n\n')\<close>: every maximal run of three or more newlines becomes
  two newlines. The first argument counts the newlines of the run being read.
\<close>

definition emitRun :: "nat \<Rightarrow> jsstring" where
  "emitRun n = replicate (if 3 \<le> n then 2 else n) NL"

fun collapseFrom :: "nat \<Rightarrow> jsstring \<Rightarrow> jsstring" where
  "collapseFrom n [] = emitRun n"
| "collapseFrom n (c # cs) =
     (if c = NL then collapseFrom (Suc n) cs
      else emitRun n @ c # collapseFrom 0 cs)"

definition collapseBlankRuns :: "jsstring \<Rightarrow> jsstring" where
  "collapseBlankRuns s = collapseFrom 0 s"

text \<open>Decimal rendering of a number inside a template string.\<close>

fun decimal :: "nat \<Rightarrow> jsstring" where
  "decimal n = (if n < 10 then [48 + n] else decimal (n div 10) @ [48 + n mod 10])"

declare decimal.simps [simp del]

section \<open>Header Resolver\<close>

record HeaderLocation =
  index :: int
  level :: nat

definition notFound :: HeaderLocation where
  "notFound = \<lparr>index = - 1, level = 0\<rparr>"

text \<open>
  \<open>normalize\<close> of \<open>findHeaderLineIndex\<close>. \<open>toLowerCase\<close> is a built-in whose Unicode
  case tables are not reproduced: it is the parameter \<open>lower\<close> of the resolver and of the
  patch engine, and \<open>asciiLowerCase\<close> (which agrees with it on ASCII text) is used
  where a concrete document is evaluated.
\<close>

definition asciiLowerCase :: "jsstring \<Rightarrow> jsstring" where
  "asciiLowerCase s = map (\<lambda>c. if 65 \<le> c \<and> c \<le> 90 then c + 32 else c) s"

definition isLeadingMarker :: "jschar \<Rightarrow> bool" where
  "isLeadingMarker c \<longleftrightarrow> c = 35 \<or> isWhiteSpace c \<or> c = 42 \<or> c = 95 \<or> c = 45"

definition isTrailingMarker :: "jschar \<Rightarrow> bool" where
  "isTrailingMarker c \<longleftrightarrow> c = 42 \<or> c = 95 \<or> c = 126"

definition isTrailingPunct :: "jschar \<Rightarrow> bool" where
  "isTrailingPunct c \<longleftrightarrow> c = 58 \<or> c = 65306 \<or> c = 46 \<or> c = 12290"

definition stripTrailingPunct :: "jsstring \<Rightarrow> jsstring" where
  "stripTrailingPunct s = (if s \<noteq> [] \<and> isTrailingPunct (last s) then butlast s else s)"

definition normalizeQuotes :: "jschar \<Rightarrow> jschar" where
  "normalizeQuotes c =
     (if c = 8220 \<or> c = 8221 then 34
      else if c = 8216 \<or> c = 8217 then 39
      else if c = 65306 then 58
      else c)"

definition normalizeText :: "(jsstring \<Rightarrow> jsstring) \<Rightarrow> jsstring \<Rightarrow> jsstring" where
  "normalizeText lower s =
     trim (stripTrailingPunct (map normalizeQuotes (lower (trim
       (dropWhileEnd isTrailingMarker (dropWhile isLeadingMarker s))))))"

text \<open>\<open>\w\<close> and the ideograph range U+4E00 to U+9FA5 kept by \<open>superClean\<close>.\<close>

definition isWordChar :: "jschar \<Rightarrow> bool" where
  "isWordChar c \<longleftrightarrow>
     (48 \<le> c \<and> c \<le> 57) \<or> (65 \<le> c \<and> c \<le> 90) \<or> c = 95 \<or> (97 \<le> c \<and> c \<le> 122)"

definition superClean :: "jsstring \<Rightarrow> jsstring" where
  "superClean s = filter (\<lambda>c. isWordChar c \<or> (19968 \<le> c \<and> c \<le> 40869)) s"

text \<open>
  \<open>line.match(/^(\s*)(#+)\s*(.*)$/)\<close>: the number of \<open>#\<close> and the text after them, when the
  line starts (after blanks) with \<open>#\<close> and nothing after the markers is a line terminator.
\<close>

definition headerMatch :: "jsstring \<Rightarrow> (nat \<times> jsstring) option" where
  "headerMatch line =
     (let a = dropWhile isWhiteSpace line;
          hashes = takeWhile (\<lambda>c. c = 35) a;
          rest = dropWhile isWhiteSpace (dropWhile (\<lambda>c. c = 35) a)
      in if hashes = [] \<or> list_ex isLineTerminator rest then None
         else Some (length hashes, rest))"

text \<open>
  \<open>line.match(/^(\*\*|__)(.*?)(\*\*|__)\s*$/)\<close>. \<open>boldBody\<close> reads the text after the
  opening marker and returns the lazily matched group 2.
\<close>

definition isBoldMarker :: "jsstring \<Rightarrow> bool" where
  "isBoldMarker m \<longleftrightarrow> m = [42, 42] \<or> m = [95, 95]"

fun boldBody :: "jsstring \<Rightarrow> jsstring option" where
  "boldBody [] = None"
| "boldBody (c # cs) =
     (if isBoldMarker (take 2 (c # cs)) \<and> list_all isWhiteSpace (drop 2 (c # cs)) then Some []
      else if isLineTerminator c then None
      else map_option (\<lambda>b. c # b) (boldBody cs))"

definition boldMatch :: "jsstring \<Rightarrow> jsstring option" where
  "boldMatch line = (if isBoldMarker (take 2 line) then boldBody (drop 2 line) else None)"

text \<open>Branches A, B and C of the first loop: the header text of a line and its level.\<close>

definition classifyLine :: "jsstring \<Rightarrow> jsstring \<times> nat" where
  "classifyLine line =
     (case headerMatch line of
        Some (n, rest) \<Rightarrow> (trim rest, n)
      | None \<Rightarrow>
          (case boldMatch line of
             Some body \<Rightarrow> (trim body, 4)
           | None \<Rightarrow> if length line < 100 then (line, 3) else ([], 0)))"

text \<open>The three tests of the first loop on one header text.\<close>

definition headerMatches :: "(jsstring \<Rightarrow> jsstring) \<Rightarrow> jsstring \<Rightarrow> jsstring \<Rightarrow> bool" where
  "headerMatches lower normalizedTarget headerText =
     (let normalizedHeader = normalizeText lower headerText;
          superCleanHeader = superClean normalizedHeader;
          superCleanTarget = superClean normalizedTarget
      in normalizedHeader = normalizedTarget
         \<or> (2 < length normalizedTarget
              \<and> (includesStr normalizedHeader normalizedTarget
                   \<or> includesStr normalizedTarget normalizedHeader))
         \<or> (2 < length superCleanTarget \<and> 2 < length superCleanHeader
              \<and> (superCleanHeader = superCleanTarget
                   \<or> includesStr superCleanHeader superCleanTarget
                   \<or> includesStr superCleanTarget superCleanHeader)))"

fun scanHeaders ::
  "(jsstring \<Rightarrow> jsstring) \<Rightarrow> jsstring \<Rightarrow> nat \<Rightarrow> jsstring list \<Rightarrow> HeaderLocation option" where
  "scanHeaders lower normalizedTarget i [] = None"
| "scanHeaders lower normalizedTarget i (l # ls) =
     (let line = trim l in
      if line = [] then scanHeaders lower normalizedTarget (Suc i) ls
      else
        (let (headerText, lvl) = classifyLine line in
         if headerText \<noteq> [] \<and> headerMatches lower normalizedTarget headerText
         then Some \<lparr>index = int i, level = lvl\<rparr>
         else scanHeaders lower normalizedTarget (Suc i) ls))"

text \<open>The last pass: any non-empty line containing the target or contained in it.\<close>

fun scanAnyLine ::
  "(jsstring \<Rightarrow> jsstring) \<Rightarrow> jsstring \<Rightarrow> nat \<Rightarrow> jsstring list \<Rightarrow> HeaderLocation option" where
  "scanAnyLine lower normalizedTarget i [] = None"
| "scanAnyLine lower normalizedTarget i (l # ls) =
     (let line = lower (trim l) in
      if line \<noteq> [] \<and> (includesStr line normalizedTarget \<or> includesStr normalizedTarget line)
      then Some \<lparr>index = int i, level = 2\<rparr>
      else scanAnyLine lower normalizedTarget (Suc i) ls)"

definition findHeaderLineIndex ::
  "(jsstring \<Rightarrow> jsstring) \<Rightarrow> jsstring list \<Rightarrow> jsstring \<Rightarrow> HeaderLocation" where
  "findHeaderLineIndex lower lines targetHeader =
     (if targetHeader = [] then notFound
      else
        (let normalizedTarget = normalizeText lower targetHeader;
             superCleanTarget = superClean normalizedTarget
         in if normalizedTarget = [] \<and> superCleanTarget = [] then notFound
            else
              (case scanHeaders lower normalizedTarget 0 lines of
                 Some loc \<Rightarrow> loc
               | None \<Rightarrow>
                   (case scanAnyLine lower normalizedTarget 0 lines of
                      Some loc \<Rightarrow> loc
                    | None \<Rightarrow> notFound))))"

section \<open>Document Patch Engine\<close>

text \<open>
  \<open>NotepadAction\<close> is a union tagged by the string \<open>action\<close>; the values come from
  unvalidated JSON, and the engine switches on the tag. The directive is a record with the
  tag and the fields of all variants: a branch reads only the fields of its own variant,
  and a tag outside the six cases of the switch is representable. An absent \<open>all\<close> is
  \<open>False\<close>.
\<close>

record NotepadAction =
  action :: jsstring
  content :: jsstring
  header :: jsstring
  findStr :: jsstring
  replacement :: jsstring
  allFlag :: bool

record PatchResult =
  newContent :: jsstring
  errors :: "jsstring list"

text \<open>
  Modelled from the spec: \<open>escapeRegExp\<close> of \<open>./commonUtils\<close>, which is not among the
  sources. The spec asks for literal (non-regex) matching of \<open>find\<close>; the helper puts a
  backslash before each character that is special in a regular expression, so that the
  pattern built from its result matches \<open>find\<close> itself.
\<close>

definition isRegExpSpecial :: "jschar \<Rightarrow> bool" where
  "isRegExpSpecial c \<longleftrightarrow>
     c = 46 \<or> c = 42 \<or> c = 43 \<or> c = 63 \<or> c = 94 \<or> c = 36 \<or> c = 123 \<or> c = 125 \<or>
     c = 40 \<or> c = 41 \<or> c = 124 \<or> c = 91 \<or> c = 93 \<or> c = 92"

definition escapeRegExp :: "jsstring \<Rightarrow> jsstring" where
  "escapeRegExp s = concat (map (\<lambda>c. if isRegExpSpecial c then [92, c] else [c]) s)"

text \<open>
  \<open>new RegExp(p, 'g')\<close> for a pattern in which every special character is escaped: the
  one string it matches.
\<close>

fun patternLiteral :: "jsstring \<Rightarrow> jsstring" where
  "patternLiteral [] = []"
| "patternLiteral [c] = [c]"
| "patternLiteral (c # d # r) =
     (if c = 92 then d # patternLiteral r else c # patternLiteral (d # r))"

text \<open>
  The replacement text of \<open>String.prototype.replace\<close> for a match without capture groups:
  \<open>$$\<close> is a dollar sign, \<open>$&\<close> the matched text, \<open>$`\<close> the text before the match and
  \<open>$'\<close> the text after it; any other \<open>$\<close> stands for itself.
\<close>

fun getSubstitution :: "jsstring \<Rightarrow> jsstring \<Rightarrow> jsstring \<Rightarrow> jsstring \<Rightarrow> jsstring" where
  "getSubstitution matched pre post [] = []"
| "getSubstitution matched pre post [c] = [c]"
| "getSubstitution matched pre post (c # d # r) =
     (if c = 36 then
        (if d = 36 then 36 # getSubstitution matched pre post r
         else if d = 38 then matched @ getSubstitution matched pre post r
         else if d = 96 then pre @ getSubstitution matched pre post r
         else if d = 39 then post @ getSubstitution matched pre post r
         else 36 # getSubstitution matched pre post (d # r))
      else c # getSubstitution matched pre post (d # r))"

text \<open>The text before and after the first occurrence of \<open>p\<close> in a string.\<close>

fun splitAtFirst :: "jsstring \<Rightarrow> jsstring \<Rightarrow> (jsstring \<times> jsstring) option" where
  "splitAtFirst p [] = (if p = [] then Some ([], []) else None)"
| "splitAtFirst p (c # cs) =
     (if startsWith (c # cs) p then Some ([], drop (length p) (c # cs))
      else map_option (\<lambda>(b, a). (c # b, a)) (splitAtFirst p cs))"

text \<open>\<open>s.replace(p, r)\<close> with a string pattern: the first occurrence only.\<close>

definition replaceFirst :: "jsstring \<Rightarrow> jsstring \<Rightarrow> jsstring \<Rightarrow> jsstring" where
  "replaceFirst p r s =
     (case splitAtFirst p s of
        None \<Rightarrow> s
      | Some (b, a) \<Rightarrow> b @ getSubstitution p b a r @ a)"

text \<open>
  \<open>s.replace(new RegExp(p, 'g'), r)\<close> for a pattern matching the literal \<open>lit\<close>: the
  matches are taken from left to right without overlap; the empty pattern matches once at
  every position. \<open>pre\<close> is the text already passed, \<open>k\<close> the number of characters of
  the current match still to be dropped.
\<close>

fun replaceAllFrom :: "jsstring \<Rightarrow> jsstring \<Rightarrow> jsstring \<Rightarrow> nat \<Rightarrow> jsstring \<Rightarrow> jsstring" where
  "replaceAllFrom lit r pre k [] =
     (if k = 0 \<and> lit = [] then getSubstitution [] pre [] r else [])"
| "replaceAllFrom lit r pre k (c # cs) =
     (if 0 < k then replaceAllFrom lit r (pre @ [c]) (k - 1) cs
      else if startsWith (c # cs) lit then
        getSubstitution lit pre (drop (length lit) (c # cs)) r @
        (if lit = [] then c # replaceAllFrom lit r (pre @ [c]) 0 cs
         else replaceAllFrom lit r (pre @ [c]) (length lit - 1) cs)
      else c # replaceAllFrom lit r (pre @ [c]) 0 cs)"

definition replaceAllRegExp :: "jsstring \<Rightarrow> jsstring \<Rightarrow> jsstring \<Rightarrow> jsstring" where
  "replaceAllRegExp p r s = replaceAllFrom (patternLiteral p) r [] 0 s"

text \<open>The messages pushed to \<open>errors\<close>.\<close>

definition headerNotFoundMessage :: "nat \<Rightarrow> jsstring \<Rightarrow> jsstring \<Rightarrow> jsstring" where
  "headerNotFoundMessage actionNum tag h =
     [25805, 20316, 32] @ decimal actionNum @ [32, 40, 34] @ tag @ [34, 41, 32] @
     [22833, 36133, 58, 32, 26410, 25214, 21040, 26631, 39064, 32, 34] @ h @ [34, 12290]"

definition textNotFoundWarning :: "nat \<Rightarrow> jsstring \<Rightarrow> jsstring" where
  "textNotFoundWarning actionNum f =
     [25805, 20316, 32] @ decimal actionNum @ [32, 40, 34] @ js ''search_and_replace'' @
     [34, 41, 32] @ [35686, 21578, 58, 32, 26410, 25214, 21040, 25991, 26412, 32, 34] @
     take 20 f @ [46, 46, 46, 34]"

text \<open>\<open>lines[i].trim().match(/^(#+)\s/)\<close>: the level of a header line.\<close>

definition sectionHeaderLevel :: "jsstring \<Rightarrow> nat option" where
  "sectionHeaderLevel l =
     (let t = trim l; hashes = takeWhile (\<lambda>c. c = 35) t
      in case dropWhile (\<lambda>c. c = 35) t of
           [] \<Rightarrow> None
         | c # _ \<Rightarrow> if hashes \<noteq> [] \<and> isWhiteSpace c then Some (length hashes) else None)"

text \<open>
  The loop that looks for the end of a section: the index of the first line, from index
  \<open>i\<close> on, that is a header of level at most \<open>headerLevel\<close>, or the number of lines.
\<close>

fun findSectionEnd :: "nat \<Rightarrow> nat \<Rightarrow> jsstring list \<Rightarrow> nat" where
  "findSectionEnd headerLevel i [] = i"
| "findSectionEnd headerLevel i (l # ls) =
     (case sectionHeaderLevel l of
        Some currentLevel \<Rightarrow>
          if currentLevel \<le> headerLevel then i else findSectionEnd headerLevel (Suc i) ls
      | None \<Rightarrow> findSectionEnd headerLevel (Suc i) ls)"

definition replaceSection ::
  "(jsstring \<Rightarrow> jsstring) \<Rightarrow> nat \<Rightarrow> PatchResult \<Rightarrow> NotepadAction \<Rightarrow> PatchResult" where
  "replaceSection lower actionNum st m =
     (let lines = split_nl (newContent st);
          loc = findHeaderLineIndex lower lines (header m)
      in if index loc = - 1
         then st\<lparr>errors := errors st @
                [headerNotFoundMessage actionNum (js ''replace_section'') (header m)]\<rparr>
         else
           (let startLineIndex = nat (index loc);
                endLineIndex =
                  findSectionEnd (level loc) (startLineIndex + 1) (drop (startLineIndex + 1) lines);
                beforeLines = take (startLineIndex + 1) lines;
                afterLines = drop endLineIndex lines;
                contentToInsert =
                  (if startsWith (content m) [NL] then content m else NL # content m);
                finalContent = join_nl (beforeLines @ [contentToInsert] @ afterLines)
            in st\<lparr>newContent := collapseBlankRuns finalContent\<rparr>))"

definition appendToSection ::
  "(jsstring \<Rightarrow> jsstring) \<Rightarrow> nat \<Rightarrow> PatchResult \<Rightarrow> NotepadAction \<Rightarrow> PatchResult" where
  "appendToSection lower actionNum st m =
     (let lines = split_nl (newContent st);
          loc = findHeaderLineIndex lower lines (header m)
      in if index loc = - 1
         then st\<lparr>errors := errors st @
                [headerNotFoundMessage actionNum (js ''append_to_section'') (header m)]\<rparr>
         else
           (let startLineIndex = nat (index loc);
                insertionLineIndex =
                  findSectionEnd (level loc) (startLineIndex + 1) (drop (startLineIndex + 1) lines);
                beforeLines = take insertionLineIndex lines;
                afterLines = drop insertionLineIndex lines;
                lastLineOfSection = last beforeLines;
                contentToInsert =
                  (if lastLineOfSection \<noteq> [] \<and> trim lastLineOfSection \<noteq> []
                   then NL # content m else content m);
                finalContent = join_nl (beforeLines @ [contentToInsert] @ afterLines)
            in st\<lparr>newContent := collapseBlankRuns finalContent\<rparr>))"

definition searchAndReplace :: "nat \<Rightarrow> PatchResult \<Rightarrow> NotepadAction \<Rightarrow> PatchResult" where
  "searchAndReplace actionNum st m =
     (let safeSearchString = escapeRegExp (findStr m);
          errors' =
            (if \<not> includesStr (newContent st) (findStr m) \<and> \<not> allFlag m
             then errors st @ [textNotFoundWarning actionNum (findStr m)]
             else errors st)
      in if allFlag m
         then \<lparr>newContent = replaceAllRegExp safeSearchString (replacement m) (newContent st),
               errors = errors'\<rparr>
         else \<lparr>newContent = replaceFirst safeSearchString (replacement m) (newContent st),
               errors = errors'\<rparr>)"

text \<open>The body of the \<open>forEach\<close>: the \<open>switch\<close> has six cases and no default.\<close>

definition applyModification ::
  "(jsstring \<Rightarrow> jsstring) \<Rightarrow> nat \<Rightarrow> PatchResult \<Rightarrow> NotepadAction \<Rightarrow> PatchResult" where
  "applyModification lower idx st m =
     (let actionNum = idx + 1 in
      if action m = js ''replace_all'' then st\<lparr>newContent := content m\<rparr>
      else if action m = js ''append'' then
        st\<lparr>newContent :=
             newContent st @ (if endsWith (newContent st) [NL] then [] else [NL]) @ content m\<rparr>
      else if action m = js ''prepend'' then
        st\<lparr>newContent :=
             content m @ (if endsWith (content m) [NL] then [] else [NL]) @ newContent st\<rparr>
      else if action m = js ''replace_section'' then replaceSection lower actionNum st m
      else if action m = js ''append_to_section'' then appendToSection lower actionNum st m
      else if action m = js ''search_and_replace'' then searchAndReplace actionNum st m
      else st)"

fun applyFrom ::
  "(jsstring \<Rightarrow> jsstring) \<Rightarrow> nat \<Rightarrow> PatchResult \<Rightarrow> NotepadAction list \<Rightarrow> PatchResult" where
  "applyFrom lower idx st [] = st"
| "applyFrom lower idx st (m # ms) = applyFrom lower (Suc idx) (applyModification lower idx st m) ms"

definition applyNotepadModifications ::
  "(jsstring \<Rightarrow> jsstring) \<Rightarrow> jsstring \<Rightarrow> NotepadAction list \<Rightarrow> PatchResult" where
  "applyNotepadModifications lower currentContent modifications =
     applyFrom lower 0 \<lparr>newContent = currentContent, errors = []\<rparr> modifications"

text \<open>The six directive variants of \<open>NotepadAction\<close> as values of the record.\<close>

definition ReplaceAll :: "jsstring \<Rightarrow> NotepadAction" where
  "ReplaceAll c =
     \<lparr>action = js ''replace_all'', content = c, header = [], findStr = [],
      replacement = [], allFlag = False\<rparr>"

definition Append :: "jsstring \<Rightarrow> NotepadAction" where
  "Append c =
     \<lparr>action = js ''append'', content = c, header = [], findStr = [],
      replacement = [], allFlag = False\<rparr>"

definition Prepend :: "jsstring \<Rightarrow> NotepadAction" where
  "Prepend c =
     \<lparr>action = js ''prepend'', content = c, header = [], findStr = [],
      replacement = [], allFlag = False\<rparr>"

definition ReplaceSection :: "jsstring \<Rightarrow> jsstring \<Rightarrow> NotepadAction" where
  "ReplaceSection h c =
     \<lparr>action = js ''replace_section'', content = c, header = h, findStr = [],
      replacement = [], allFlag = False\<rparr>"

definition AppendToSection :: "jsstring \<Rightarrow> jsstring \<Rightarrow> NotepadAction" where
  "AppendToSection h c =
     \<lparr>action = js ''append_to_section'', content = c, header = h, findStr = [],
      replacement = [], allFlag = False\<rparr>"

definition SearchReplace :: "jsstring \<Rightarrow> jsstring \<Rightarrow> bool \<Rightarrow> NotepadAction" where
  "SearchReplace f r a =
     \<lparr>action = js ''search_and_replace'', content = [], header = [], findStr = f,
      replacement = r, allFlag = a\<rparr>"

definition recognizedActions :: "jsstring list" where
  "recognizedActions =
     [js ''replace_all'', js ''append'', js ''prepend'', js ''replace_section'',
      js ''append_to_section'', js ''search_and_replace'']"

text \<open>
  Properties of a document used below: a blank line is a line that \<open>trim\<close> empties, and
  \<open>runsBelow3 n s\<close> holds when \<open>s\<close>, read after \<open>n\<close> newlines, has no run of three
  newlines.
\<close>

fun threeBlankLines :: "jsstring list \<Rightarrow> bool" where
  "threeBlankLines (a # b # c # r) =
     ((trim a = [] \<and> trim b = [] \<and> trim c = []) \<or> threeBlankLines (b # c # r))"
| "threeBlankLines ls = False"

fun runsBelow3 :: "nat \<Rightarrow> jsstring \<Rightarrow> bool" where
  "runsBelow3 n [] = True"
| "runsBelow3 n (c # cs) =
     (if c = NL then n < 2 \<and> runsBelow3 (Suc n) cs else runsBelow3 0 cs)"

text \<open>Documents and targets used to evaluate the engine and the resolver.\<close>

definition docAB :: jsstring where
  "docAB = js ''## A'' @ [NL] @ js ''x'' @ [NL] @ js ''## B'' @ [NL] @ js ''y''"

definition docABblank :: jsstring where
  "docABblank =
     js ''## A'' @ [NL] @ js ''x'' @ [NL] @ js ''## B'' @ [NL] @ js ''y'' @ [NL, NL, NL] @ js ''z''"

definition quotedSummaryLine :: jsstring where
  "quotedSummaryLine = js ''## '' @ [34] @ js ''summary'' @ [34]"

definition docSummary :: jsstring where
  "docSummary = js ''# Notes'' @ [NL, NL] @ quotedSummaryLine @ [NL] @ js ''body''"

text \<open>
  The header \<open>summary\<close> between double quotes behind \<open>n\<close> markers \<open>#\<close>, and a line of
  107 characters that starts with the word \<open>summary\<close>: too long for branch C of the first
  loop, it is seen by the last pass only.
\<close>

definition quotedSummaryHeader :: "nat \<Rightarrow> jsstring" where
  "quotedSummaryHeader n = replicate n 35 @ js '' '' @ [34] @ js ''summary'' @ [34]"

definition longSummaryLine :: jsstring where
  "longSummaryLine = js ''summary'' @ replicate 100 120"

definition docLongLine :: jsstring where
  "docLongLine = longSummaryLine @ [NL] @ quotedSummaryLine @ [NL] @ js ''body''"

section \<open>JSON values and \<open>JSON.parse\<close>\<close>

text \<open>
  The values \<open>JSON.parse\<close> returns. A number keeps its lexeme (the source never computes
  with a parsed number); an object keeps its members in the order of the text, and reading
  a property takes the last member with that key, as a later duplicate overwrites an
  earlier one.
\<close>

datatype json =
    JNull
  | JBool bool
  | JNumber jsstring
  | JString jsstring
  | JArray "json list"
  | JObject "(jsstring \<times> json) list"

definition jsonGet :: "(jsstring \<times> json) list \<Rightarrow> jsstring \<Rightarrow> json option" where
  "jsonGet members key = map_of (rev members) key"

definition isJsonWs :: "jschar \<Rightarrow> bool" where
  "isJsonWs c \<longleftrightarrow> c = 32 \<or> c = 9 \<or> c = 10 \<or> c = 13"

definition skipWs :: "jsstring \<Rightarrow> jsstring" where
  "skipWs s = dropWhile isJsonWs s"

definition isDigit :: "jschar \<Rightarrow> bool" where
  "isDigit c \<longleftrightarrow> 48 \<le> c \<and> c \<le> 57"

definition hexDigit :: "jschar \<Rightarrow> nat option" where
  "hexDigit c =
     (if 48 \<le> c \<and> c \<le> 57 then Some (c - 48)
      else if 97 \<le> c \<and> c \<le> 102 then Some (c - 87)
      else if 65 \<le> c \<and> c \<le> 70 then Some (c - 55)
      else None)"

definition hex4 :: "jsstring \<Rightarrow> jschar option" where
  "hex4 s =
     (case map hexDigit s of
        [Some a, Some b, Some c, Some d] \<Rightarrow> Some (((a * 16 + b) * 16 + c) * 16 + d)
      | _ \<Rightarrow> None)"

definition simpleEscape :: "jschar \<Rightarrow> jschar option" where
  "simpleEscape e =
     (if e = 34 then Some 34 else if e = 92 then Some 92 else if e = 47 then Some 47
      else if e = 98 then Some 8 else if e = 102 then Some 12 else if e = 110 then Some 10
      else if e = 114 then Some 13 else if e = 116 then Some 9 else None)"

text \<open>A string literal after its opening quote: its value and the text after the closing quote.\<close>

fun parseStringBody :: "jsstring \<Rightarrow> (jsstring \<times> jsstring) option" where
  "parseStringBody [] = None"
| "parseStringBody [c] = (if c = 34 then Some ([], []) else None)"
| "parseStringBody (c # e # r) =
     (if c = 34 then Some ([], e # r)
      else if c = 92 then
        (if e = 117 then
           (case hex4 (take 4 r) of
              None \<Rightarrow> None
            | Some u \<Rightarrow> map_option (\<lambda>(s, rest). (u # s, rest)) (parseStringBody (drop 4 r)))
         else
           (case simpleEscape e of
              None \<Rightarrow> None
            | Some x \<Rightarrow> map_option (\<lambda>(s, rest). (x # s, rest)) (parseStringBody r)))
      else if c < 32 then None
      else map_option (\<lambda>(s, rest). (c # s, rest)) (parseStringBody (e # r)))"

text \<open>A number: its lexeme and the text after it.\<close>

definition parseDigits :: "jsstring \<Rightarrow> (jsstring \<times> jsstring) option" where
  "parseDigits s =
     (if takeWhile isDigit s = [] then None
      else Some (takeWhile isDigit s, dropWhile isDigit s))"

definition parseInt :: "jsstring \<Rightarrow> (jsstring \<times> jsstring) option" where
  "parseInt s =
     (case s of
        [] \<Rightarrow> None
      | d # r \<Rightarrow>
          if d = 48 then Some ([48], r)
          else if isDigit d then Some (d # takeWhile isDigit r, dropWhile isDigit r)
          else None)"

definition parseFrac :: "jsstring \<Rightarrow> (jsstring \<times> jsstring) option" where
  "parseFrac s =
     (case s of
        [] \<Rightarrow> Some ([], [])
      | d # r \<Rightarrow>
          if d = 46 then map_option (\<lambda>(ds, rest). (46 # ds, rest)) (parseDigits r)
          else Some ([], s))"

definition parseExp :: "jsstring \<Rightarrow> (jsstring \<times> jsstring) option" where
  "parseExp s =
     (case s of
        [] \<Rightarrow> Some ([], [])
      | e # r \<Rightarrow>
          if e = 101 \<or> e = 69 then
            (case r of
               [] \<Rightarrow> None
             | g # r' \<Rightarrow>
                 if g = 43 \<or> g = 45
                 then map_option (\<lambda>(ds, rest). (e # g # ds, rest)) (parseDigits r')
                 else map_option (\<lambda>(ds, rest). (e # ds, rest)) (parseDigits r))
          else Some ([], s))"

definition parseNumber :: "jsstring \<Rightarrow> (jsstring \<times> jsstring) option" where
  "parseNumber s =
     (let sign = (if startsWith s [45] then [45] else []);
          s1 = drop (length sign) s
      in case parseInt s1 of
           None \<Rightarrow> None
         | Some (i, s2) \<Rightarrow>
             (case parseFrac s2 of
                None \<Rightarrow> None
              | Some (f, s3) \<Rightarrow>
                  (case parseExp s3 of
                     None \<Rightarrow> None
                   | Some (x, s4) \<Rightarrow> Some (sign @ i @ f @ x, s4))))"

text \<open>
  The grammar of values, by recursive descent. The first argument bounds the number of
  nested calls; \<open>JSON_parse\<close> starts with twice the length of the text plus two. A larger
  bound gives the same result (lemma \<open>JSON_parse_fuel\<close> below), since every value and
  every separator takes a character: a text is never rejected for lack of calls.
  \<open>parseElements\<close> and \<open>parseMembers\<close> read a non-empty list up to its closing bracket.
\<close>

fun parseValue :: "nat \<Rightarrow> jsstring \<Rightarrow> (json \<times> jsstring) option"
  and parseElements :: "nat \<Rightarrow> jsstring \<Rightarrow> (json list \<times> jsstring) option"
  and parseMembers :: "nat \<Rightarrow> jsstring \<Rightarrow> ((jsstring \<times> json) list \<times> jsstring) option"
where
  "parseValue 0 s = None"
| "parseValue (Suc n) s =
     (case s of
        [] \<Rightarrow> None
      | c # cs \<Rightarrow>
          if c = 123 then
            (case skipWs cs of
               [] \<Rightarrow> None
             | d # r \<Rightarrow>
                 if d = 125 then Some (JObject [], r)
                 else map_option (\<lambda>(ms, rest). (JObject ms, rest)) (parseMembers n (d # r)))
          else if c = 91 then
            (case skipWs cs of
               [] \<Rightarrow> None
             | d # r \<Rightarrow>
                 if d = 93 then Some (JArray [], r)
                 else map_option (\<lambda>(vs, rest). (JArray vs, rest)) (parseElements n (d # r)))
          else if c = 34 then map_option (\<lambda>(v, rest). (JString v, rest)) (parseStringBody cs)
          else if startsWith s [116, 114, 117, 101] then Some (JBool True, drop 4 s)
          else if startsWith s [102, 97, 108, 115, 101] then Some (JBool False, drop 5 s)
          else if startsWith s [110, 117, 108, 108] then Some (JNull, drop 4 s)
          else map_option (\<lambda>(lexeme, rest). (JNumber lexeme, rest)) (parseNumber s))"
| "parseElements 0 s = None"
| "parseElements (Suc n) s =
     (case parseValue n s of
        None \<Rightarrow> None
      | Some (v, r) \<Rightarrow>
          (case skipWs r of
             [] \<Rightarrow> None
           | d # r2 \<Rightarrow>
               if d = 44
               then map_option (\<lambda>(vs, rest). (v # vs, rest)) (parseElements n (skipWs r2))
               else if d = 93 then Some ([v], r2)
               else None))"
| "parseMembers 0 s = None"
| "parseMembers (Suc n) s =
     (case s of
        [] \<Rightarrow> None
      | q # cs \<Rightarrow>
          if q \<noteq> 34 then None
          else
            (case parseStringBody cs of
               None \<Rightarrow> None
             | Some (k, r) \<Rightarrow>
                 (case skipWs r of
                    [] \<Rightarrow> None
                  | colon # r2 \<Rightarrow>
                      if colon \<noteq> 58 then None
                      else
                        (case parseValue n (skipWs r2) of
                           None \<Rightarrow> None
                         | Some (v, r3) \<Rightarrow>
                             (case skipWs r3 of
                                [] \<Rightarrow> None
                              | d # r4 \<Rightarrow>
                                  if d = 44
                                  then map_option (\<lambda>(ms, rest). ((k, v) # ms, rest))
                                         (parseMembers n (skipWs r4))
                                  else if d = 125 then Some ([(k, v)], r4)
                                  else None)))))"

definition JSON_parse :: "jsstring \<Rightarrow> json option" where
  "JSON_parse s =
     (case parseValue (2 * length s + 2) (skipWs s) of
        None \<Rightarrow> None
      | Some (v, rest) \<Rightarrow> if skipWs rest = [] then Some v else None)"

section \<open>Directive Parser\<close>

text \<open>\<open>cleaned.replace(/,(\s*[}\]])/g, '$1')\<close>: a comma before a closing bracket is dropped.\<close>

fun stripTrailingCommas :: "jsstring \<Rightarrow> jsstring" where
  "stripTrailingCommas [] = []"
| "stripTrailingCommas (c # cs) =
     (if c = 44 \<and>
         (case dropWhile isWhiteSpace cs of [] \<Rightarrow> False | d # _ \<Rightarrow> d = 125 \<or> d = 93)
      then stripTrailingCommas cs
      else c # stripTrailingCommas cs)"

text \<open>
  \<open>.replace(/\/\/.*$/gm, '')\<close>: from \<open>//\<close> to the end of the line. The flag tells that
  the text read is inside such a comment.
\<close>

fun stripLineComments :: "bool \<Rightarrow> jsstring \<Rightarrow> jsstring" where
  "stripLineComments inComment [] = []"
| "stripLineComments True (c # cs) =
     (if isLineTerminator c then c # stripLineComments False cs
      else stripLineComments True cs)"
| "stripLineComments False [c] = [c]"
| "stripLineComments False (c # d # r) =
     (if c = 47 \<and> d = 47 then stripLineComments True r
      else c # stripLineComments False (d # r))"

text \<open>
  \<open>.replace(/\/\*[\s\S]*?\*\//g, '')\<close>: from \<open>/*\<close> to the first \<open>*/\<close> after it; an opening
  without a closing is left in place.
\<close>

fun stripBlockComments :: "bool \<Rightarrow> jsstring \<Rightarrow> jsstring" where
  "stripBlockComments inComment [] = []"
| "stripBlockComments True [c] = []"
| "stripBlockComments True (c # d # r) =
     (if c = 42 \<and> d = 47 then stripBlockComments False r
      else stripBlockComments True (d # r))"
| "stripBlockComments False [c] = [c]"
| "stripBlockComments False (c # d # r) =
     (if c = 47 \<and> d = 42 \<and> includesStr r [42, 47] then stripBlockComments True r
      else c # stripBlockComments False (d # r))"

text \<open>
  \<open>robustJsonParse\<close>: \<open>null\<close> for the empty text and when the three attempts fail, as in
  the source, where it cannot be told from a parsed \<open>null\<close>.
\<close>

definition robustJsonParse :: "jsstring \<Rightarrow> json" where
  "robustJsonParse jsonStr =
     (if jsonStr = [] then JNull
      else
        (case JSON_parse jsonStr of
           Some v \<Rightarrow> v
         | None \<Rightarrow>
             (let cleaned = stripTrailingCommas jsonStr in
              case JSON_parse cleaned of
                Some v \<Rightarrow> v
              | None \<Rightarrow>
                  (let noComments = stripBlockComments False (stripLineComments False cleaned) in
                   case JSON_parse noComments of
                     Some v \<Rightarrow> v
                   | None \<Rightarrow> JNull))))"

text \<open>
  \<open>responseText.matchAll(/```(?:json)?\s*([\s\S]*?)\s*```/gi)\<close>: each match as the pair of
  the matched text and group 1. A match starts at the first \<open>```\<close>, skips an optional
  \<open>json\<close> (any case) and blanks, and ends at the first \<open>```\<close> after them; group 1 is the
  text between, without the blanks at its end. The search goes on after the match.
\<close>

definition ticks :: jsstring where
  "ticks = [96, 96, 96]"

definition skipJsonTag :: "jsstring \<Rightarrow> jsstring" where
  "skipJsonTag s =
     (if asciiLowerCase (take 4 s) = [106, 115, 111, 110] then drop 4 s else s)"

lemma splitAtFirst_length:
  "splitAtFirst p s = Some (b, a) \<Longrightarrow> length b + length p + length a = length s"
proof (induction s arbitrary: b)
  case Nil
  then show ?case by (simp split: if_splits)
next
  case (Cons c cs)
  show ?case
  proof (cases "startsWith (c # cs) p")
    case True
    then have "length (take (length p) (c # cs)) = length p"
      unfolding startsWith_def by simp
    then have "length p \<le> length (c # cs)"
      unfolding length_take by linarith
    then show ?thesis using True Cons.prems by auto
  next
    case False
    then obtain b' where "splitAtFirst p cs = Some (b', a)" and "b = c # b'"
      using Cons.prems by auto
    then show ?thesis using Cons.IH by auto
  qed
qed

function matchFences :: "jsstring \<Rightarrow> (jsstring \<times> jsstring) list" where
  "matchFences s =
     (case splitAtFirst ticks s of
        None \<Rightarrow> []
      | Some (pre, post) \<Rightarrow>
          (case splitAtFirst ticks (dropWhile isWhiteSpace (skipJsonTag post)) of
             None \<Rightarrow> []
           | Some (body, rest) \<Rightarrow>
               (ticks @ take (length post - length rest) post, dropWhileEnd isWhiteSpace body)
               # matchFences rest))"
  by pat_completeness auto
termination
proof (relation "measure length")
  show "wf (measure length)" by simp
next
  fix s x2 pre post x2a body rest
  assume a: "splitAtFirst ticks s = Some x2" "(pre, post) = x2"
    and b: "splitAtFirst ticks (dropWhile isWhiteSpace (skipJsonTag post)) = Some x2a"
       "(body, rest) = x2a"
  have "length post < length s"
    using splitAtFirst_length[of ticks s pre post] a by (simp add: ticks_def)
  moreover have "length (skipJsonTag post) \<le> length post"
    by (simp add: skipJsonTag_def)
  moreover have "length (dropWhile isWhiteSpace (skipJsonTag post)) \<le> length (skipJsonTag post)"
    by (rule length_dropWhile_le)
  moreover have "length rest \<le> length (dropWhile isWhiteSpace (skipJsonTag post))"
    using splitAtFirst_length[of ticks "dropWhile isWhiteSpace (skipJsonTag post)" body rest] b
    by simp
  ultimately show "(rest, s) \<in> measure length" by simp
qed

declare matchFences.simps [simp del]

text \<open>\<open>s.lastIndexOf(p)\<close> and \<open>s.lastIndexOf(p, from)\<close>, with \<open>- 1\<close> when there is none.\<close>

definition occurrencesUpTo :: "jsstring \<Rightarrow> jsstring \<Rightarrow> nat \<Rightarrow> nat list" where
  "occurrencesUpTo s p bound =
     filter (\<lambda>i. startsWith (drop i s) p) [0..<Suc (min bound (length s))]"

definition lastIndexOfFrom :: "jsstring \<Rightarrow> jsstring \<Rightarrow> nat \<Rightarrow> int" where
  "lastIndexOfFrom s p bound =
     (if occurrencesUpTo s p bound = [] then - 1 else int (last (occurrencesUpTo s p bound)))"

definition lastIndexOf :: "jsstring \<Rightarrow> jsstring \<Rightarrow> int" where
  "lastIndexOf s p = lastIndexOfFrom s p (length s)"

text \<open>
  Strategy 2 of \<open>parseAIResponse\<close>: the text from the last \<open>{\<close> at or before the last
  known key to the last \<open>}\<close> of the reply.
\<close>

definition knownKeys :: "jsstring list" where
  "knownKeys =
     [[34] @ js ''notepad_modifications'' @ [34], [34] @ js ''discussion_complete'' @ [34]]"

definition heuristicCandidate :: "jsstring \<Rightarrow> jsstring option" where
  "heuristicCandidate responseText =
     (let lastKeyIndex =
            foldl (\<lambda>best key. if lastIndexOf responseText key > best
                               then lastIndexOf responseText key else best)
              (- 1) knownKeys
      in if lastKeyIndex = - 1 then None
         else
           (let openBraceIndex = lastIndexOfFrom responseText [123] (nat lastKeyIndex);
                closeBraceIndex = lastIndexOf responseText [125]
            in if openBraceIndex \<noteq> - 1 \<and> closeBraceIndex \<noteq> - 1
                  \<and> closeBraceIndex > openBraceIndex
               then Some (take (nat closeBraceIndex + 1 - nat openBraceIndex)
                            (drop (nat openBraceIndex) responseText))
               else None))"

record NotepadUpdatePayload =
  modifications :: "json list option"
  error :: "jsstring option"

record ParsedAIResponse =
  spokenText :: jsstring
  notepadUpdate :: "NotepadUpdatePayload option"
  discussionShouldEnd :: bool

text \<open>\<open>parsed && typeof parsed === 'object'\<close>: an object or an array.\<close>

fun isObjectValue :: "json \<Rightarrow> bool" where
  "isObjectValue (JObject ms) = True"
| "isObjectValue (JArray vs) = True"
| "isObjectValue v = False"

text \<open>The two properties read from a successfully parsed value.\<close>

fun notepadModificationsOf :: "json \<Rightarrow> json list" where
  "notepadModificationsOf (JObject ms) =
     (case jsonGet ms (js ''notepad_modifications'') of
        Some (JArray vs) \<Rightarrow> vs
      | _ \<Rightarrow> [])"
| "notepadModificationsOf v = []"

fun discussionCompleteOf :: "json \<Rightarrow> bool" where
  "discussionCompleteOf (JObject ms) =
     (case jsonGet ms (js ''discussion_complete'') of
        Some (JBool b) \<Rightarrow> b
      | _ \<Rightarrow> False)"
| "discussionCompleteOf v = False"

text \<open>The candidate and the text to remove: the last fenced block, or the heuristic one.\<close>

definition selectCandidate :: "jsstring \<Rightarrow> jsstring option \<times> jsstring option" where
  "selectCandidate responseText =
     (let matches = matchFences responseText in
      if matches \<noteq> [] then (Some (snd (last matches)), Some (fst (last matches)))
      else
        (case heuristicCandidate responseText of
           Some c \<Rightarrow> (Some c, Some c)
         | None \<Rightarrow> (None, None)))"

definition removeJsonText :: "jsstring \<Rightarrow> jsstring \<Rightarrow> jsstring" where
  "removeJsonText spoken textToRemove =
     (if endsWith spoken textToRemove
      then trim (take (length spoken - length textToRemove) spoken)
      else trim (replaceFirst textToRemove [] spoken))"

definition parseErrorMessage :: jsstring where
  "parseErrorMessage = js ''Failed to parse AI JSON response.''"

definition notepadActionTextOf :: "json list \<Rightarrow> jsstring" where
  "notepadActionTextOf mods =
     (if 0 < length mods
      then [20462, 25913, 20102, 35760, 20107, 26412, 32, 40] @ decimal (length mods) @
           [32, 39033, 25805, 20316, 41]
      else [])"

definition discussionActionTextOf :: "bool \<Rightarrow> jsstring" where
  "discussionActionTextOf ended =
     (if ended then [24314, 35758, 32467, 26463, 35752, 35770] else [])"

text \<open>
  The end of \<open>parseAIResponse\<close>, from the construction of the status texts on: the spoken
  text (a placeholder when it is blank) and the payload.
\<close>

definition placeholderText ::
  "jsstring \<Rightarrow> json list \<Rightarrow> bool \<Rightarrow> jsstring option \<Rightarrow> jsstring" where
  "placeholderText spoken mods ended parsingError =
     (let notepadActionText = notepadActionTextOf mods;
          discussionActionText = discussionActionTextOf ended
      in if trim spoken \<noteq> [] then spoken
         else if notepadActionText \<noteq> [] \<and> discussionActionText \<noteq> []
         then js ''(AI '' @ notepadActionText @ [24182] @ discussionActionText @ js '')''
         else if notepadActionText \<noteq> [] then js ''(AI '' @ notepadActionText @ js '')''
         else if discussionActionText \<noteq> [] then js ''(AI '' @ discussionActionText @ js '')''
         else if parsingError = None \<and> (0 < length mods \<or> ended)
         then js ''(AI process complete)''
         else spoken)"

definition buildResponse ::
  "jsstring \<Rightarrow> json list \<Rightarrow> bool \<Rightarrow> jsstring option \<Rightarrow> ParsedAIResponse" where
  "buildResponse spoken notepadModifications ended parsingError =
     \<lparr>spokenText = placeholderText spoken notepadModifications ended parsingError,
      notepadUpdate =
        (if 0 < length notepadModifications \<or> parsingError \<noteq> None
         then Some \<lparr>modifications =
                      (if 0 < length notepadModifications then Some notepadModifications
                       else None),
                    error = parsingError\<rparr>
         else None),
      discussionShouldEnd = ended\<rparr>"

definition parseAIResponse :: "jsstring \<Rightarrow> ParsedAIResponse" where
  "parseAIResponse responseText =
     (let matches = matchFences responseText in
      case selectCandidate responseText of
        (None, textToRemove) \<Rightarrow> buildResponse responseText [] False None
      | (Some jsonCandidate, textToRemove) \<Rightarrow>
          if jsonCandidate = [] then buildResponse responseText [] False None
          else
            (let parsed = robustJsonParse jsonCandidate in
             if isObjectValue parsed then
               buildResponse
                 (case textToRemove of
                    None \<Rightarrow> responseText
                  | Some t \<Rightarrow> if t = [] then responseText else removeJsonText responseText t)
                 (notepadModificationsOf parsed) (discussionCompleteOf parsed) None
             else
               buildResponse responseText [] False
                 (if matches \<noteq> [] then Some parseErrorMessage else None)))"

text \<open>The reply of the spec's example, and two replies with a fenced block.\<close>

definition quoted :: "string \<Rightarrow> jsstring" where
  "quoted s = [34] @ js s @ [34]"

definition exampleJson :: jsstring where
  "exampleJson =
     js ''{'' @ quoted ''notepad_modifications'' @ js '':[{'' @ quoted ''action'' @ js '':'' @
     quoted ''append'' @ js '','' @ quoted ''content'' @ js '':'' @ quoted ''X'' @ js ''}],'' @
     quoted ''discussion_complete'' @ js '':true}''"

definition exampleFence :: jsstring where
  "exampleFence = ticks @ js ''json'' @ [NL] @ exampleJson @ [NL] @ ticks"

definition exampleReply :: jsstring where
  "exampleReply = js ''Hello'' @ [NL] @ exampleFence"

definition exampleValue :: json where
  "exampleValue =
     JObject
       [(js ''notepad_modifications'',
         JArray [JObject [(js ''action'', JString (js ''append'')),
                          (js ''content'', JString (js ''X''))]]),
        (js ''discussion_complete'', JBool True)]"

definition emptyFenceReply :: jsstring where
  "emptyFenceReply = js ''Hi'' @ [NL] @ ticks @ [NL] @ ticks"

definition numberFenceReply :: jsstring where
  "numberFenceReply = js ''Hi'' @ [NL] @ ticks @ [NL] @ js ''42'' @ [NL] @ ticks"

text \<open>The claim's condition on a candidate: the three attempts of \<open>robustJsonParse\<close> fail.\<close>

definition unparsableAfterRepairs :: "jsstring \<Rightarrow> bool" where
  "unparsableAfterRepairs s \<longleftrightarrow>
     JSON_parse s = None \<and> JSON_parse (stripTrailingCommas s) = None \<and>
     JSON_parse (stripBlockComments False (stripLineComments False (stripTrailingCommas s))) = None"

definition parsingErrorOf :: "ParsedAIResponse \<Rightarrow> jsstring option" where
  "parsingErrorOf r = (case notepadUpdate r of None \<Rightarrow> None | Some u \<Rightarrow> error u)"

definition proseFenceReply :: jsstring where
  "proseFenceReply = js ''Hi'' @ [NL] @ ticks @ [NL] @ js ''not json'' @ [NL] @ ticks"

definition heuristicFailReply :: jsstring where
  "heuristicFailReply = js ''Done. {'' @ quoted ''discussion_complete'' @ js '': tru}''"

definition unknownJson :: jsstring where
  "unknownJson =
     js ''{'' @ quoted ''notepad_modifications'' @ js '':[{'' @ quoted ''action'' @ js '':'' @
     quoted ''delete_all'' @ js ''}]}''"

definition unknownReply :: jsstring where
  "unknownReply = ticks @ [NL] @ unknownJson @ [NL] @ ticks"

definition unknownDirective :: NotepadAction where
  "unknownDirective =
     \<lparr>action = js ''delete_all'', content = [], header = [], findStr = [],
      replacement = [], allFlag = False\<rparr>"

section \<open>Step Executor\<close>

datatype MessageSender = User | Cognito | Muse | System

datatype MessagePurpose =
  UserInput | SystemNotification | CognitoToMuse | MuseToCognito | FinalResponse

datatype ThinkingLevel = MINIMAL | LOW | MEDIUM | HIGH

text \<open>An optional boolean field is \<open>None\<close> when absent; only \<open>Some True\<close> is truthy.\<close>

record AiModel =
  modelId :: jsstring
  modelName :: jsstring
  apiName :: jsstring
  supportsThinkingConfig :: "bool option"
  supportsSystemInstruction :: "bool option"

text \<open>The budget is a count of tokens, with \<open>- 1\<close> for the automatic setting: an integer.\<close>

record ThinkingConfig =
  thinkingBudget :: "int option"
  thinkingLevel :: "ThinkingLevel option"

text \<open>
  The constants of \<open>../constants\<close>, which is not among the sources, and the properties of
  the hook that \<open>executeStep\<close> reads.
\<close>

record StepConfig =
  MAX_AUTO_RETRIES :: nat
  RETRY_DELAY_BASE_MS :: nat
  GEMINI_3_PRO_MODEL_ID :: jsstring
  useOpenAiApiConfig :: bool
  cognitoSystemPrompt :: jsstring
  museSystemPrompt :: jsstring
  cognitoThinkingBudget :: int
  cognitoThinkingLevel :: ThinkingLevel
  museThinkingBudget :: int
  museThinkingLevel :: ThinkingLevel

definition getThinkingConfigForGeminiModel ::
  "StepConfig \<Rightarrow> AiModel \<Rightarrow> int \<Rightarrow> ThinkingLevel \<Rightarrow> ThinkingConfig option" where
  "getThinkingConfigForGeminiModel cfg modelDetails budget lvl =
     (if \<not> useOpenAiApiConfig cfg \<and> supportsThinkingConfig modelDetails = Some True then
        (if budget = 0 then None
         else if budget = - 1 then
           (if apiName modelDetails = GEMINI_3_PRO_MODEL_ID cfg
            then Some \<lparr>thinkingBudget = None, thinkingLevel = Some lvl\<rparr>
            else Some \<lparr>thinkingBudget = Some 1024, thinkingLevel = None\<rparr>)
         else Some \<lparr>thinkingBudget = Some budget, thinkingLevel = None\<rparr>)
      else None)"

record ImagePart =
  mimeType :: jsstring
  imageData :: jsstring

record StepRequest =
  stepIdentifier :: jsstring
  prompt :: jsstring
  modelDetailsForStep :: AiModel
  senderForStep :: MessageSender
  purposeForStep :: MessagePurpose
  imageApiPartForStep :: "ImagePart option"
  userInputForFlowContext :: "jsstring option"
  imageApiPartForFlowContext :: "ImagePart option"
  discussionLogBeforeFailureContext :: "jsstring list option"
  currentTurnIndexForResumeContext :: "int option"
  previousAISignaledStopForResumeContext :: "bool option"

record FailedStepPayload =
  failedStepIdentifier :: jsstring
  failedPrompt :: jsstring
  failedModelName :: jsstring
  systemInstruction :: jsstring
  imageApiPart :: "ImagePart option"
  failedSender :: MessageSender
  failedPurpose :: MessagePurpose
  originalSystemErrorMsgId :: nat
  userInputForFlow :: jsstring
  imageApiPartForFlow :: "ImagePart option"
  discussionLogBeforeFailure :: "jsstring list"
  currentTurnIndexForResume :: "int option"
  previousAISignaledStopForResume :: "bool option"

record AiResponsePayload =
  responseText :: jsstring
  responseThoughts :: "jsstring option"
  durationMs :: nat
  responseError :: "jsstring option"

record JsError =
  errorName :: jsstring
  errorMessage :: jsstring

record StreamChunk =
  chunkText :: "jsstring option"
  chunkThoughts :: "jsstring option"

record TransportRequest =
  viaOpenAi :: bool
  requestPrompt :: jsstring
  requestModel :: jsstring
  requestSystemInstruction :: "jsstring option"
  requestImage :: "ImagePart option"
  requestThinkingConfig :: "ThinkingConfig option"

record MessageUpdate =
  updText :: "jsstring option"
  updThoughts :: "jsstring option"
  updDurationMs :: "nat option"

text \<open>
  What \<open>executeStep\<close> does to its surroundings, in the order it does it. A message id is
  the number of messages created before (\<open>generateUniqueId\<close> is not among the sources;
  all that is used of it is that ids are fresh).
\<close>

datatype Effect =
    AddMessage nat jsstring MessageSender MessagePurpose
  | UpdateMessage nat MessageUpdate
  | CallTransport TransportRequest
  | Delay nat
  | SetGlobalApiKeyStatus
  | SetFailedStepInfo FailedStepPayload
  | SetIsInternalDiscussionActive bool

record World =
  nextMessageId :: nat
  effects :: "Effect list"

definition addMessage ::
  "jsstring \<Rightarrow> MessageSender \<Rightarrow> MessagePurpose \<Rightarrow> World \<Rightarrow> nat \<times> World" where
  "addMessage txt sndr purp w =
     (nextMessageId w,
      \<lparr>nextMessageId = Suc (nextMessageId w),
       effects = effects w @ [AddMessage (nextMessageId w) txt sndr purp]\<rparr>)"

definition emit :: "Effect \<Rightarrow> World \<Rightarrow> World" where
  "emit e w = w\<lparr>effects := effects w @ [e]\<rparr>"

text \<open>
  \<open>generateResponse\<close> of the managed-provider transport. Its surroundings are the key in
  use, the chunks the provider streams, each with the state of the abort signal when the
  loop reaches it, the way the stream ends, and the time elapsed. The result is the payload
  returned and the calls made to \<open>onStream\<close>.
\<close>

record GeminiPart =
  partIsThought :: bool
  partText :: "jsstring option"

record GeminiChunk =
  candidateParts :: "GeminiPart list option"
  chunkFallbackText :: "jsstring option"

record StreamEvent =
  signalAborted :: bool
  sdkChunk :: GeminiChunk

datatype StreamEnd = StreamDone | StreamThrows JsError

definition partTextOr :: "GeminiPart \<Rightarrow> jsstring" where
  "partTextOr p = (case partText p of Some t \<Rightarrow> t | None \<Rightarrow> [])"

definition chunkTexts :: "GeminiChunk \<Rightarrow> jsstring \<times> jsstring" where
  "chunkTexts c =
     (let ps = (case candidateParts c of Some l \<Rightarrow> l | None \<Rightarrow> []);
          t = concat (map partTextOr (filter (\<lambda>p. \<not> partIsThought p) ps));
          th = concat (map partTextOr (filter partIsThought ps))
      in if t = [] \<and> th = [] then
           (case chunkFallbackText c of Some f \<Rightarrow> (f, th) | None \<Rightarrow> (t, th))
         else (t, th))"

definition abortException :: JsError where
  "abortException = \<lparr>errorName = js ''AbortError'', errorMessage = js ''Aborted''\<rparr>"

fun consumeStream ::
  "jsstring \<Rightarrow> jsstring \<Rightarrow> StreamEvent list \<Rightarrow> StreamEnd
     \<Rightarrow> (JsError + jsstring \<times> jsstring) \<times> StreamChunk list" where
  "consumeStream fullText fullThoughts [] ending =
     (case ending of
        StreamDone \<Rightarrow> (Inr (fullText, fullThoughts), [])
      | StreamThrows e \<Rightarrow> (Inl e, []))"
| "consumeStream fullText fullThoughts (ev # evs) ending =
     (if signalAborted ev then (Inl abortException, [])
      else
        (case consumeStream (fullText @ fst (chunkTexts (sdkChunk ev)))
                (fullThoughts @ snd (chunkTexts (sdkChunk ev))) evs ending of
           (r, calls) \<Rightarrow>
             (r, \<lparr>chunkText = Some (fst (chunkTexts (sdkChunk ev))),
                  chunkThoughts = Some (snd (chunkTexts (sdkChunk ev)))\<rparr> # calls)))"

definition apiKeyMissingText :: jsstring where
  "apiKeyMissingText = [65, 80, 73, 23494, 38053, 26410, 37197, 32622, 12290]"

definition cancelMessage :: jsstring where
  "cancelMessage = [29992, 25143, 21462, 28040, 25805, 20316]"

definition generateResponse ::
  "jsstring option \<Rightarrow> StreamEvent list \<Rightarrow> StreamEnd \<Rightarrow> nat
     \<Rightarrow> AiResponsePayload \<times> StreamChunk list" where
  "generateResponse apiKeyToUse events ending elapsed =
     (if apiKeyToUse = None \<or> apiKeyToUse = Some [] then
        (\<lparr>responseText = apiKeyMissingText, responseThoughts = None, durationMs = 0,
          responseError = Some (js ''API key not configured'')\<rparr>, [])
      else
        (case consumeStream [] [] events ending of
           (Inr (fullText, fullThoughts), calls) \<Rightarrow>
             (\<lparr>responseText = fullText,
               responseThoughts = (if fullThoughts = [] then None else Some fullThoughts),
               durationMs = elapsed, responseError = None\<rparr>, calls)
         | (Inl e, calls) \<Rightarrow>
             if errorName e = js ''AbortError'' \<or> includesStr (errorMessage e) (js ''Aborted'')
             then (\<lparr>responseText = cancelMessage, responseThoughts = None,
                    durationMs = elapsed, responseError = Some (js ''AbortError'')\<rparr>, calls)
             else (\<lparr>responseText = errorMessage e, responseThoughts = None,
                    durationMs = elapsed, responseError = Some (js ''AI Error'')\<rparr>, calls)))"

text \<open>
  What the surroundings do during one attempt: the value of \<open>cancelRequestRef.current\<close>
  when the attempt starts, the chunks the transport streams, how the transport call ends,
  and the value of \<open>cancelRequestRef.current\<close> when it has ended.
\<close>

datatype TransportOutcome = Returned AiResponsePayload | Threw JsError

record Attempt =
  cancelledAtStart :: bool
  chunks :: "StreamChunk list"
  outcome :: TransportOutcome
  cancelledAfterCall :: bool

definition cancelledError :: JsError where
  "cancelledError = \<lparr>errorName = js ''Error'', errorMessage = cancelMessage\<rparr>"

definition defaultErrorText :: jsstring where
  "defaultErrorText = [65, 73, 32, 21709, 24212, 38169, 35823]"

definition retryNotice :: "jsstring \<Rightarrow> jsstring" where
  "retryNotice msg = [91, 37325, 35797, 93, 32] @ msg"

definition failureNotice :: "jsstring \<Rightarrow> jsstring" where
  "failureNotice msg = [22833, 36133, 58, 32] @ msg"

text \<open>\<open>streamHandler\<close>, called once for each chunk, with the two accumulators.\<close>

fun streamChunks ::
  "nat \<Rightarrow> jsstring \<Rightarrow> jsstring \<Rightarrow> StreamChunk list \<Rightarrow> World \<Rightarrow> World" where
  "streamChunks msgId streamedText streamedThoughts [] w = w"
| "streamChunks msgId streamedText streamedThoughts (c # cs) w =
     (let streamedText' =
            (case chunkText c of
               Some t \<Rightarrow> if t = [] then streamedText else streamedText @ t
             | None \<Rightarrow> streamedText);
          streamedThoughts' =
            (case chunkThoughts c of
               Some t \<Rightarrow> if t = [] then streamedThoughts else streamedThoughts @ t
             | None \<Rightarrow> streamedThoughts)
      in streamChunks msgId streamedText' streamedThoughts' cs
           (emit (UpdateMessage msgId
              \<lparr>updText = Some streamedText', updThoughts = Some streamedThoughts',
               updDurationMs = None\<rparr>) w))"

definition systemInstructionToUse :: "StepConfig \<Rightarrow> StepRequest \<Rightarrow> jsstring" where
  "systemInstructionToUse cfg req =
     (if senderForStep req = Cognito then cognitoSystemPrompt cfg else museSystemPrompt cfg)"

definition thinkingConfigOf :: "StepConfig \<Rightarrow> StepRequest \<Rightarrow> ThinkingConfig option" where
  "thinkingConfigOf cfg req =
     getThinkingConfigForGeminiModel cfg (modelDetailsForStep req)
       (if senderForStep req = Cognito then cognitoThinkingBudget cfg else museThinkingBudget cfg)
       (if senderForStep req = Cognito then cognitoThinkingLevel cfg else museThinkingLevel cfg)"

definition transportRequest :: "StepConfig \<Rightarrow> StepRequest \<Rightarrow> TransportRequest" where
  "transportRequest cfg req =
     \<lparr>viaOpenAi = useOpenAiApiConfig cfg,
      requestPrompt = prompt req,
      requestModel = apiName (modelDetailsForStep req),
      requestSystemInstruction =
        (if supportsSystemInstruction (modelDetailsForStep req) = Some True
         then Some (systemInstructionToUse cfg req) else None),
      requestImage = imageApiPartForStep req,
      requestThinkingConfig =
        (if useOpenAiApiConfig cfg then None else thinkingConfigOf cfg req)\<rparr>"

text \<open>
  The \<open>try\<close> block after the transport call: the error it throws, or the parsed response
  with the effects of a success.
\<close>

definition afterCall ::
  "nat \<Rightarrow> Attempt \<Rightarrow> World \<Rightarrow> (JsError + ParsedAIResponse) \<times> World" where
  "afterCall msgId a w =
     (case outcome a of
        Threw e \<Rightarrow> (Inl e, w)
      | Returned result \<Rightarrow>
          if cancelledAfterCall a then (Inl cancelledError, w)
          else if responseError result \<noteq> None \<and> responseError result \<noteq> Some [] then
            (if responseError result = Some (js ''AbortError'') then (Inl cancelledError, w)
             else (Inl \<lparr>errorName = js ''Error'',
                        errorMessage =
                          (if responseText result = [] then defaultErrorText
                           else responseText result)\<rparr>, w))
          else
            (let parsedResponse = parseAIResponse (responseText result)
             in (Inr parsedResponse,
                 emit (UpdateMessage msgId
                         \<lparr>updText = Some (spokenText parsedResponse),
                          updThoughts = responseThoughts result,
                          updDurationMs = Some (durationMs result)\<rparr>)
                   (emit SetGlobalApiKeyStatus w))))"

definition failedStepPayload :: "StepConfig \<Rightarrow> StepRequest \<Rightarrow> nat \<Rightarrow> FailedStepPayload" where
  "failedStepPayload cfg req errorMsgId =
     \<lparr>failedStepIdentifier = stepIdentifier req,
      failedPrompt = prompt req,
      failedModelName = apiName (modelDetailsForStep req),
      systemInstruction = systemInstructionToUse cfg req,
      imageApiPart = imageApiPartForStep req,
      failedSender = senderForStep req,
      failedPurpose = purposeForStep req,
      originalSystemErrorMsgId = errorMsgId,
      userInputForFlow = (case userInputForFlowContext req of Some u \<Rightarrow> u | None \<Rightarrow> []),
      imageApiPartForFlow = imageApiPartForFlowContext req,
      discussionLogBeforeFailure =
        (case discussionLogBeforeFailureContext req of Some l \<Rightarrow> l | None \<Rightarrow> []),
      currentTurnIndexForResume = currentTurnIndexForResumeContext req,
      previousAISignaledStopForResume = previousAISignaledStopForResumeContext req\<rparr>"

text \<open>
  The \<open>while\<close> loop of \<open>executeStep\<close>, from the attempt numbered \<open>autoRetryCount\<close> on.
  The result is the error thrown or the value returned; \<open>Inr None\<close> is the \<open>null\<close> that
  \<open>return parsedResponse!\<close> would give if the loop ended without a success, which does
  not happen (lemma \<open>executeStep_never_null\<close> below).
\<close>

function executeLoop ::
  "StepConfig \<Rightarrow> StepRequest \<Rightarrow> (nat \<Rightarrow> Attempt) \<Rightarrow> nat \<Rightarrow> World
     \<Rightarrow> (JsError + ParsedAIResponse option) \<times> World" where
  "executeLoop cfg req env autoRetryCount w =
     (if autoRetryCount \<le> MAX_AUTO_RETRIES cfg then
        (if cancelledAtStart (env autoRetryCount) then (Inl cancelledError, w)
         else
           (let (msgId, w1) = addMessage [] (senderForStep req) (purposeForStep req) w;
                w2 = emit (CallTransport (transportRequest cfg req)) w1;
                w3 = streamChunks msgId [] [] (chunks (env autoRetryCount)) w2
            in case afterCall msgId (env autoRetryCount) w3 of
                 (Inr parsedResponse, w4) \<Rightarrow> (Inr (Some parsedResponse), w4)
               | (Inl e, w4) \<Rightarrow>
                   if cancelledAfterCall (env autoRetryCount) \<or> errorName e = js ''AbortError''
                   then (Inl cancelledError, w4)
                   else if autoRetryCount < MAX_AUTO_RETRIES cfg then
                     (let (noticeId, w5) =
                            addMessage (retryNotice (errorMessage e)) System SystemNotification w4;
                          w6 = emit (Delay (RETRY_DELAY_BASE_MS cfg * (autoRetryCount + 1))) w5
                      in executeLoop cfg req env (autoRetryCount + 1) w6)
                   else
                     (let (errorMsgId, w5) =
                            addMessage (failureNotice (errorMessage e)) System SystemNotification w4;
                          w6 = emit (SetFailedStepInfo (failedStepPayload cfg req errorMsgId)) w5;
                          w7 = emit (SetIsInternalDiscussionActive False) w6
                      in (Inl e, w7))))
      else (Inr None, w))"
  by pat_completeness auto
termination
  by (relation "measure (\<lambda>(cfg, req, env, autoRetryCount, w). Suc (MAX_AUTO_RETRIES cfg) - autoRetryCount)")
    auto

declare executeLoop.simps [simp del]

definition executeStep ::
  "StepConfig \<Rightarrow> StepRequest \<Rightarrow> (nat \<Rightarrow> Attempt) \<Rightarrow> World
     \<Rightarrow> (JsError + ParsedAIResponse option) \<times> World" where
  "executeStep cfg req env w = executeLoop cfg req env 0 w"

text \<open>
  Names for parts of a run: the effects of the stream handler alone, the effects with which
  every attempt starts, and the error an attempt ends with when no cancellation is seen.
\<close>

definition streamUpdates :: "nat \<Rightarrow> StreamChunk list \<Rightarrow> Effect list" where
  "streamUpdates msgId cs =
     effects (streamChunks msgId [] [] cs \<lparr>nextMessageId = 0, effects = []\<rparr>)"

definition attemptStart :: "StepConfig \<Rightarrow> StepRequest \<Rightarrow> nat \<Rightarrow> Attempt \<Rightarrow> Effect list" where
  "attemptStart cfg req msgId a =
     [AddMessage msgId [] (senderForStep req) (purposeForStep req),
      CallTransport (transportRequest cfg req)] @ streamUpdates msgId (chunks a)"

definition failureOf :: "Attempt \<Rightarrow> JsError option" where
  "failureOf a =
     (case outcome a of
        Threw e \<Rightarrow> Some e
      | Returned result \<Rightarrow>
          if responseError result \<noteq> None \<and> responseError result \<noteq> Some [] then
            (if responseError result = Some (js ''AbortError'') then Some cancelledError
             else Some \<lparr>errorName = js ''Error'',
                        errorMessage =
                          (if responseText result = [] then defaultErrorText
                           else responseText result)\<rparr>)
          else None)"

definition isSnapshot :: "Effect \<Rightarrow> bool" where
  "isSnapshot e = (case e of SetFailedStepInfo p \<Rightarrow> True | _ \<Rightarrow> False)"

definition isTransportCall :: "Effect \<Rightarrow> bool" where
  "isTransportCall e = (case e of CallTransport r \<Rightarrow> True | _ \<Rightarrow> False)"

text \<open>A configuration, a request and scripted surroundings used to run the executor.\<close>

definition sampleModel :: AiModel where
  "sampleModel =
     \<lparr>modelId = js ''m1'', modelName = js ''Model'', apiName = js ''gemini-flash'',
      supportsThinkingConfig = Some True, supportsSystemInstruction = Some True\<rparr>"

definition sampleProModel :: AiModel where
  "sampleProModel =
     \<lparr>modelId = js ''m2'', modelName = js ''Pro'', apiName = js ''gemini-3-pro'',
      supportsThinkingConfig = Some True, supportsSystemInstruction = Some True\<rparr>"

definition sampleConfig :: StepConfig where
  "sampleConfig =
     \<lparr>MAX_AUTO_RETRIES = 2, RETRY_DELAY_BASE_MS = 1000,
      GEMINI_3_PRO_MODEL_ID = js ''gemini-3-pro'', useOpenAiApiConfig = False,
      cognitoSystemPrompt = js ''c'', museSystemPrompt = js ''m'',
      cognitoThinkingBudget = - 1, cognitoThinkingLevel = HIGH,
      museThinkingBudget = 0, museThinkingLevel = LOW\<rparr>"

definition sampleRequest :: StepRequest where
  "sampleRequest =
     \<lparr>stepIdentifier = js ''step'', prompt = js ''hi'', modelDetailsForStep = sampleModel,
      senderForStep = Cognito, purposeForStep = CognitoToMuse, imageApiPartForStep = None,
      userInputForFlowContext = None, imageApiPartForFlowContext = None,
      discussionLogBeforeFailureContext = None, currentTurnIndexForResumeContext = None,
      previousAISignaledStopForResumeContext = None\<rparr>"

definition failedAttempt :: Attempt where
  "failedAttempt =
     \<lparr>cancelledAtStart = False, chunks = [],
      outcome = Returned \<lparr>responseText = js ''overloaded'', responseThoughts = None,
                          durationMs = 0, responseError = Some (js ''AI Error'')\<rparr>,
      cancelledAfterCall = False\<rparr>"

definition okAttempt :: Attempt where
  "okAttempt =
     \<lparr>cancelledAtStart = False,
      chunks = [\<lparr>chunkText = Some (js ''ok''), chunkThoughts = None\<rparr>],
      outcome = Returned \<lparr>responseText = js ''ok'', responseThoughts = None,
                          durationMs = 5, responseError = None\<rparr>,
      cancelledAfterCall = False\<rparr>"

definition parseErrorAttempt :: Attempt where
  "parseErrorAttempt =
     \<lparr>cancelledAtStart = False, chunks = [],
      outcome = Returned \<lparr>responseText = proseFenceReply, responseThoughts = None,
                          durationMs = 5, responseError = None\<rparr>,
      cancelledAfterCall = False\<rparr>"

text \<open>
  An attempt on the managed-provider transport whose abort signal fires after the first
  chunk, while \<open>cancelRequestRef.current\<close> stays false.
\<close>

definition abortedMidStream :: "StreamEvent list" where
  "abortedMidStream =
     [\<lparr>signalAborted = False,
       sdkChunk = \<lparr>candidateParts = Some [\<lparr>partIsThought = False, partText = Some (js ''Hel'')\<rparr>],
                   chunkFallbackText = None\<rparr>\<rparr>,
      \<lparr>signalAborted = True,
       sdkChunk = \<lparr>candidateParts = Some [\<lparr>partIsThought = False, partText = Some (js ''lo'')\<rparr>],
                   chunkFallbackText = None\<rparr>\<rparr>]"

definition abortedAttempt :: Attempt where
  "abortedAttempt =
     \<lparr>cancelledAtStart = False,
      chunks = snd (generateResponse (Some (js ''key'')) abortedMidStream StreamDone 7),
      outcome = Returned (fst (generateResponse (Some (js ''key'')) abortedMidStream StreamDone 7)),
      cancelledAfterCall = False\<rparr>"

definition failTwiceThenSucceed :: "nat \<Rightarrow> Attempt" where
  "failTwiceThenSucceed k = (if k < 2 then failedAttempt else okAttempt)"

definition emptyWorld :: World where
  "emptyWorld = \<lparr>nextMessageId = 0, effects = []\<rparr>"

section \<open>Lines, joins and blank runs\<close>

lemma collapseFrom_split:
  "c \<noteq> NL \<Longrightarrow> collapseFrom n (p @ c # t) = collapseFrom n p @ c # collapseFrom 0 t"
  by (induction p arbitrary: n) auto

lemma collapseFrom_snoc_NL: "\<exists>q. collapseFrom n (p @ [NL]) = q @ [NL]"
proof (induction p arbitrary: n)
  case Nil
  have "emitRun (Suc n) = replicate (if 3 \<le> Suc n then 1 else n) NL @ [NL]"
    by (simp add: emitRun_def replicate_append_same numeral_2_eq_2)
  then show ?case by auto
next
  case (Cons a p)
  show ?case
  proof (cases "a = NL")
    case True
    then show ?thesis using Cons by simp
  next
    case False
    obtain q where "collapseFrom 0 (p @ [NL]) = q @ [NL]" using Cons by blast
    then show ?thesis using False by simp
  qed
qed

lemma join_nl_append:
  "xs \<noteq> [] \<Longrightarrow> ys \<noteq> [] \<Longrightarrow> join_nl (xs @ ys) = join_nl xs @ NL # join_nl ys"
  by (induction xs rule: join_nl.induct) (auto simp: neq_Nil_conv)

lemma split_nl_nonempty: "split_nl s \<noteq> []"
  by (induction s) (auto split: list.splits)

lemma split_nl_append: "split_nl (q @ NL # s) = split_nl q @ split_nl s"
  by (induction q) (auto simp: split_nl_nonempty split: list.splits)

lemma split_nl_no_NL: "l \<in> set (split_nl s) \<Longrightarrow> NL \<notin> set l"
proof (induction s arbitrary: l)
  case Nil then show ?case by simp
next
  case (Cons c s)
  obtain h t where ht: "split_nl s = h # t" using split_nl_nonempty by (cases "split_nl s") auto
  show ?case using Cons ht by (auto split: if_splits)
qed

lemma split_nl_line: "NL \<notin> set l \<Longrightarrow> split_nl l = [l]"
  by (induction l) auto

lemma split_join: "ls \<noteq> [] \<Longrightarrow> \<forall>l \<in> set ls. NL \<notin> set l \<Longrightarrow> split_nl (join_nl ls) = ls"
proof (induction ls rule: join_nl.induct)
  case 1 then show ?case by simp
next
  case (2 l) then show ?case by (simp add: split_nl_line)
next
  case (3 l v va)
  then show ?case by (simp add: split_nl_append split_nl_line)
qed

lemma findSectionEnd_bounds:
  "s \<le> findSectionEnd lvl s ls \<and> findSectionEnd lvl s ls \<le> s + length ls"
proof (induction ls arbitrary: s)
  case Nil then show ?case by simp
next
  case (Cons l ls)
  have "Suc s \<le> findSectionEnd lvl (Suc s) ls \<and> findSectionEnd lvl (Suc s) ls \<le> Suc s + length ls"
    using Cons[of "Suc s"] by simp
  then show ?case by (auto split: option.splits)
qed

lemma findSectionEnd_le:
  "j < length ls \<Longrightarrow> sectionHeaderLevel (ls ! j) = Some k \<Longrightarrow> k \<le> lvl
   \<Longrightarrow> findSectionEnd lvl s ls \<le> s + j"
proof (induction ls arbitrary: s j)
  case Nil then show ?case by simp
next
  case (Cons l ls)
  show ?case
  proof (cases j)
    case 0 then show ?thesis using Cons.prems by simp
  next
    case (Suc j')
    have "findSectionEnd lvl (Suc s) ls \<le> Suc s + j'"
      using Cons.IH[of j' "Suc s"] Cons.prems Suc by simp
    then show ?thesis using Suc by (auto split: option.splits)
  qed
qed

lemma runsBelow3_replicate:
  "runsBelow3 k (replicate j NL @ x) = ((j = 0 \<or> k + j \<le> 2) \<and> runsBelow3 (k + j) x)"
  by (induction j arbitrary: k) auto

lemma runsBelow3_emitRun:
  "c \<noteq> NL \<Longrightarrow> runsBelow3 0 (emitRun n @ c # x) = runsBelow3 0 x"
  by (simp add: emitRun_def runsBelow3_replicate)

lemma runsBelow3_collapseFrom: "runsBelow3 0 (collapseFrom n s)"
proof (induction s arbitrary: n)
  case Nil
  have "runsBelow3 0 (emitRun n @ [])" unfolding emitRun_def runsBelow3_replicate by simp
  then show ?case by simp
next
  case (Cons c s)
  then show ?case by (simp add: runsBelow3_emitRun)
qed

lemma runsBelow3_no_triple: "runsBelow3 k s \<Longrightarrow> \<not> includesStr s [NL, NL, NL]"
proof (induction s arbitrary: k)
  case Nil then show ?case by simp
next
  case (Cons c s)
  have tail: "\<not> includesStr s [NL, NL, NL]"
    using Cons.IH[of "Suc k"] Cons.IH[of 0] Cons.prems by (auto split: if_splits)
  have "\<not> startsWith (c # s) [NL, NL, NL]"
  proof
    assume "startsWith (c # s) [NL, NL, NL]"
    then obtain t where "c # s = NL # NL # NL # t"
      by (cases s; cases "tl s"; cases "tl (tl s)") (auto simp: startsWith_def)
    then show False using Cons.prems by auto
  qed
  then show ?case using tail by simp
qed

lemma collapseBlankRuns_no_triple: "\<not> includesStr (collapseBlankRuns s) [NL, NL, NL]"
  unfolding collapseBlankRuns_def using runsBelow3_collapseFrom runsBelow3_no_triple by blast

lemma includesStr_append_left: "includesStr t p \<Longrightarrow> includesStr (a @ t) p"
  by (induction a) auto

lemma no_triple_runsBelow3:
  "n \<le> 2 \<Longrightarrow> \<not> includesStr (replicate n NL @ s) [NL, NL, NL] \<Longrightarrow> runsBelow3 n s"
proof (induction s arbitrary: n)
  case Nil then show ?case by simp
next
  case (Cons c s)
  show ?case
  proof (cases "c = NL")
    case True
    have n2: "n < 2"
    proof (rule ccontr)
      assume "\<not> n < 2"
      then have "n = 2" using Cons.prems by simp
      then have "startsWith (replicate n NL @ c # s) [NL, NL, NL]"
        using True by (simp add: startsWith_def numeral_2_eq_2)
      then have "includesStr (replicate n NL @ c # s) [NL, NL, NL]"
        using \<open>n = 2\<close> by (simp add: numeral_2_eq_2)
      then show False using Cons.prems by simp
    qed
    have "replicate (Suc n) NL @ s = replicate n NL @ c # s"
      using True by (simp add: replicate_app_Cons_same)
    then have "runsBelow3 (Suc n) s" using Cons.IH[of "Suc n"] Cons.prems n2 by simp
    then show ?thesis using True n2 by simp
  next
    case False
    have "\<not> includesStr s [NL, NL, NL]"
      using Cons.prems(2) includesStr_append_left[of s "[NL, NL, NL]" "replicate n NL @ [c]"] by auto
    then have "runsBelow3 0 s" using Cons.IH[of 0] by simp
    then show ?thesis using False by simp
  qed
qed

lemma collapseFrom_id: "n \<le> 2 \<Longrightarrow> runsBelow3 n s \<Longrightarrow> collapseFrom n s = replicate n NL @ s"
proof (induction s arbitrary: n)
  case Nil then show ?case by (simp add: emitRun_def)
next
  case (Cons c s)
  show ?case
  proof (cases "c = NL")
    case True
    then have "collapseFrom (Suc n) s = replicate (Suc n) NL @ s"
      using Cons.IH[of "Suc n"] Cons.prems by simp
    then show ?thesis using True by (simp add: replicate_app_Cons_same)
  next
    case False
    then have "collapseFrom 0 s = s" using Cons.IH[of 0] Cons.prems by simp
    then show ?thesis using False Cons.prems by (simp add: emitRun_def)
  qed
qed

lemma collapseBlankRuns_id: "\<not> includesStr s [NL, NL, NL] \<Longrightarrow> collapseBlankRuns s = s"
  unfolding collapseBlankRuns_def using collapseFrom_id[of 0 s] no_triple_runsBelow3[of 0 s] by simp

lemma applyFrom_append:
  "applyFrom lower idx st (ms @ [m]) = applyModification lower (idx + length ms) (applyFrom lower idx st ms) m"
  by (induction ms arbitrary: idx st) auto

section \<open>Patch engine: section edits\<close>

lemma applyNotepadModifications_snoc:
  "applyNotepadModifications lower doc (ms @ [m]) =
     applyModification lower (length ms) (applyNotepadModifications lower doc ms) m"
  by (simp add: applyNotepadModifications_def applyFrom_append)

lemma js_tags_distinct:
  "js ''replace_section'' \<noteq> js ''replace_all''"
  "js ''replace_section'' \<noteq> js ''append''"
  "js ''replace_section'' \<noteq> js ''prepend''"
  "js ''append_to_section'' \<noteq> js ''replace_all''"
  "js ''append_to_section'' \<noteq> js ''append''"
  "js ''append_to_section'' \<noteq> js ''prepend''"
  "js ''append_to_section'' \<noteq> js ''replace_section''"
  "js ''search_and_replace'' \<noteq> js ''replace_all''"
  "js ''search_and_replace'' \<noteq> js ''append''"
  "js ''search_and_replace'' \<noteq> js ''prepend''"
  "js ''search_and_replace'' \<noteq> js ''replace_section''"
  "js ''search_and_replace'' \<noteq> js ''append_to_section''"
  "js ''append'' \<noteq> js ''replace_all''"
  "js ''prepend'' \<noteq> js ''replace_all''"
  "js ''prepend'' \<noteq> js ''append''"
  by (simp_all add: js_def)

lemma applyModification_replace_section:
  "action m = js ''replace_section'' \<Longrightarrow>
   applyModification lower idx st m = replaceSection lower (idx + 1) st m"
  by (simp add: applyModification_def js_tags_distinct)

lemma applyModification_append_to_section:
  "action m = js ''append_to_section'' \<Longrightarrow>
   applyModification lower idx st m = appendToSection lower (idx + 1) st m"
  by (simp add: applyModification_def js_tags_distinct)

lemma replaceSection_found_no_triple:
  "index (findHeaderLineIndex lower (split_nl (newContent st)) (header m)) \<noteq> - 1 \<Longrightarrow>
   \<not> includesStr (newContent (replaceSection lower n st m)) [NL, NL, NL]"
  by (simp add: replaceSection_def Let_def collapseBlankRuns_no_triple)

lemma appendToSection_found_no_triple:
  "index (findHeaderLineIndex lower (split_nl (newContent st)) (header m)) \<noteq> - 1 \<Longrightarrow>
   \<not> includesStr (newContent (appendToSection lower n st m)) [NL, NL, NL]"
  by (simp add: appendToSection_def Let_def collapseBlankRuns_no_triple)

lemma replaceSection_tail:
  assumes loc: "findHeaderLineIndex lower (split_nl (newContent st)) (header m) = \<lparr>index = int i, level = lvl\<rparr>"
    and ij: "i < j" and jlen: "j < length (split_nl (newContent st))"
    and hdr: "sectionHeaderLevel (split_nl (newContent st) ! j) = Some k" and klvl: "k \<le> lvl"
  shows "\<exists>q. newContent (replaceSection lower n st m) =
           q @ NL # collapseBlankRuns (join_nl (drop j (split_nl (newContent st))))"
proof -
  define lines where "lines = split_nl (newContent st)"
  define e where "e = findSectionEnd lvl (i + 1) (drop (i + 1) lines)"
  define cti where "cti = (if startsWith (content m) [NL] then content m else NL # content m)"
  have e_le: "e \<le> j"
  proof -
    have "j - (i + 1) < length (drop (i + 1) lines)" using ij jlen lines_def by simp
    moreover have "drop (i + 1) lines ! (j - (i + 1)) = lines ! j" using ij jlen lines_def by simp
    ultimately have "e \<le> (i + 1) + (j - (i + 1))"
      unfolding e_def using findSectionEnd_le[of "j - (i + 1)" "drop (i + 1) lines" k lvl "i + 1"] hdr klvl lines_def
      by simp
    then show ?thesis using ij by simp
  qed
  have res: "newContent (replaceSection lower n st m) =
      collapseBlankRuns (join_nl (take (i + 1) lines @ [cti] @ drop e lines))"
    using loc by (simp add: replaceSection_def Let_def lines_def e_def cti_def)
  define X where "X = take (i + 1) lines @ [cti] @ take (j - e) (drop e lines)"
  define tl where "tl = drop j lines"
  have split: "take (i + 1) lines @ [cti] @ drop e lines = X @ tl"
  proof -
    have "drop e lines = take (j - e) (drop e lines) @ drop (j - e) (drop e lines)"
      by (rule append_take_drop_id[symmetric])
    moreover have "drop (j - e) (drop e lines) = drop j lines" using e_le by simp
    ultimately have "drop e lines = take (j - e) (drop e lines) @ drop j lines" by (rule back_subst)
    then show ?thesis unfolding X_def tl_def by simp
  qed
  have Xne: "X \<noteq> []" unfolding X_def by simp
  have tlne: "tl \<noteq> []" unfolding tl_def using jlen lines_def by simp
  have hd_tl: "hd tl = lines ! j" unfolding tl_def using jlen lines_def by (simp add: hd_drop_conv_nth)
  have lj_mem: "lines ! j \<in> set lines" using jlen lines_def by simp
  have lj_ne: "lines ! j \<noteq> []"
    using hdr by (auto simp: sectionHeaderLevel_def lines_def trim_def dropWhileEnd_def)
  have lj_nl: "NL \<notin> set (lines ! j)" using lj_mem split_nl_no_NL lines_def by blast
  obtain c t where ct: "join_nl tl = c # t" and cnl: "c \<noteq> NL"
  proof -
    obtain l ls where tl_eq: "tl = l # ls" using tlne by (cases tl) auto
    then have l: "l = lines ! j" using hd_tl by simp
    have lne: "l \<noteq> []" and lnl: "NL \<notin> set l" using l lj_ne lj_nl by simp_all
    obtain c l' where cl: "l = c # l'" using lne by (meson neq_Nil_conv)
    have c: "c \<noteq> NL" using lnl cl by auto
    have "join_nl tl = c # (l' @ (if ls = [] then [] else NL # join_nl ls))"
      using tl_eq cl by (cases ls) auto
    then show ?thesis using that c by blast
  qed
  have "join_nl (X @ tl) = (join_nl X @ [NL]) @ c # t"
    using join_nl_append[OF Xne tlne] ct by simp
  then have "collapseBlankRuns (join_nl (X @ tl)) =
      collapseFrom 0 (join_nl X @ [NL]) @ c # collapseFrom 0 t"
    unfolding collapseBlankRuns_def
    using collapseFrom_split[OF cnl, of 0 "join_nl X @ [NL]" t] by presburger
  moreover obtain q where "collapseFrom 0 (join_nl X @ [NL]) = q @ [NL]"
    using collapseFrom_snoc_NL by blast
  moreover have "collapseBlankRuns (join_nl tl) = c # collapseFrom 0 t"
    unfolding collapseBlankRuns_def using ct cnl by (simp add: emitRun_def)
  ultimately have "collapseBlankRuns (join_nl (X @ tl)) = q @ NL # collapseBlankRuns (join_nl tl)"
    by simp
  then show ?thesis using res split tl_def lines_def by auto
qed

lemma patternLiteral_escapeRegExp: "patternLiteral (escapeRegExp f) = f"
proof (induction f)
  case Nil
  then show ?case by (simp add: escapeRegExp_def)
next
  case (Cons c f)
  have e: "escapeRegExp (c # f) = (if isRegExpSpecial c then [92, c] else [c]) @ escapeRegExp f"
    by (simp add: escapeRegExp_def)
  show ?case
  proof (cases "isRegExpSpecial c")
    case True
    then show ?thesis using Cons e by simp
  next
    case False
    then have "c \<noteq> 92" by (auto simp: isRegExpSpecial_def)
    then show ?thesis using Cons e False by (cases "escapeRegExp f") auto
  qed
qed

section \<open>Evaluation on concrete documents\<close>

lemmas char_defs = NL_def isWhiteSpace_def isLineTerminator_def dropWhileEnd_def trim_def
  startsWith_def asciiLowerCase_def isLeadingMarker_def isTrailingMarker_def isTrailingPunct_def
  stripTrailingPunct_def normalizeQuotes_def normalizeText_def isWordChar_def superClean_def

lemma split_docAB: "split_nl docAB = [js ''## A'', js ''x'', js ''## B'', js ''y'']"
  by (simp add: docAB_def js_def NL_def)

lemma split_docABblank:
  "split_nl docABblank = [js ''## A'', js ''x'', js ''## B'', js ''y'', [], [], js ''z'']"
  by (simp add: docABblank_def js_def NL_def)

lemma split_docSummary:
  "split_nl docSummary = [js ''# Notes'', [], quotedSummaryLine, js ''body'']"
  by (simp add: docSummary_def quotedSummaryLine_def js_def NL_def)

lemma normalize_A: "normalizeText asciiLowerCase (js ''A'') = js ''a''"
  by (simp add: js_def char_defs)

lemma trim_header_A: "trim (js ''## A'') = js ''## A''"
  by (simp add: js_def char_defs)

lemma classify_header_A: "classifyLine (js ''## A'') = (js ''A'', 2)"
  by (simp add: js_def classifyLine_def headerMatch_def char_defs)

lemma matches_A: "headerMatches asciiLowerCase (js ''a'') (js ''A'')"
  by (simp add: headerMatches_def normalize_A)

lemma js_nonempty: "js ''## A'' \<noteq> []" "js ''A'' \<noteq> []" "js ''a'' \<noteq> []"
  by (simp_all add: js_def)

lemma find_header_A:
  "findHeaderLineIndex asciiLowerCase (js ''## A'' # rest) (js ''A'') = \<lparr>index = 0, level = 2\<rparr>"
  by (simp add: findHeaderLineIndex_def normalize_A trim_header_A classify_header_A matches_A
      js_nonempty)

lemma section_level_x: "sectionHeaderLevel (js ''x'') = None"
  by (simp add: sectionHeaderLevel_def js_def char_defs)

lemma section_level_B: "sectionHeaderLevel (js ''## B'') = Some 2"
  by (simp add: sectionHeaderLevel_def js_def char_defs)

lemma replicate_two: "replicate 2 x = [x, x]"
  by (simp add: numeral_2_eq_2)

lemma new_no_leading_NL: "\<not> startsWith (js ''new'') [NL]"
  by (simp add: startsWith_def js_def NL_def)

lemma replace_A_docABblank:
  "newContent (applyNotepadModifications asciiLowerCase docABblank
       [ReplaceSection (js ''A'') (js ''new'')]) =
   js ''## A'' @ [NL, NL] @ js ''new'' @ [NL] @ js ''## B'' @ [NL] @ js ''y'' @ [NL, NL] @ js ''z''"
proof -
  have "newContent (applyNotepadModifications asciiLowerCase docABblank
       [ReplaceSection (js ''A'') (js ''new'')]) =
     collapseBlankRuns (join_nl ([js ''## A''] @ [NL # js ''new''] @
        [js ''## B'', js ''y'', [], [], js ''z'']))"
    by (simp add: applyNotepadModifications_def applyModification_replace_section
        ReplaceSection_def replaceSection_def Let_def split_docABblank find_header_A
        section_level_x section_level_B new_no_leading_NL)
  also have "\<dots> = js ''## A'' @ [NL, NL] @ js ''new'' @ [NL] @ js ''## B'' @ [NL] @ js ''y'' @
      [NL, NL] @ js ''z''"
    by (simp add: js_def NL_def collapseBlankRuns_def emitRun_def replicate_two)
  finally show ?thesis .
qed

lemma replace_A_docAB:
  "newContent (applyNotepadModifications asciiLowerCase docAB
       [ReplaceSection (js ''A'') (js ''new'')]) =
   js ''## A'' @ [NL, NL] @ js ''new'' @ [NL] @ js ''## B'' @ [NL] @ js ''y''"
proof -
  have "newContent (applyNotepadModifications asciiLowerCase docAB
       [ReplaceSection (js ''A'') (js ''new'')]) =
     collapseBlankRuns (join_nl ([js ''## A''] @ [NL # js ''new''] @ [js ''## B'', js ''y'']))"
    by (simp add: applyNotepadModifications_def applyModification_replace_section
        ReplaceSection_def replaceSection_def Let_def split_docAB find_header_A
        section_level_x section_level_B new_no_leading_NL)
  also have "\<dots> = js ''## A'' @ [NL, NL] @ js ''new'' @ [NL] @ js ''## B'' @ [NL] @ js ''y''"
    by (simp add: js_def NL_def collapseBlankRuns_def emitRun_def replicate_two)
  finally show ?thesis .
qed

lemma normalize_Summary: "normalizeText asciiLowerCase (js ''Summary:'') = js ''summary''"
  by (simp add: js_def char_defs)

lemma trim_empty: "trim [] = []"
  by (simp add: trim_def dropWhileEnd_def)

lemma trim_Notes: "trim (js ''# Notes'') = js ''# Notes''"
  by (simp add: js_def char_defs)

lemma classify_Notes: "classifyLine (js ''# Notes'') = (js ''Notes'', 1)"
  by (simp add: js_def classifyLine_def headerMatch_def char_defs)

lemma no_match_Notes: "\<not> headerMatches asciiLowerCase (js ''summary'') (js ''Notes'')"
  by (simp add: js_def headerMatches_def char_defs)

lemma trim_quotedSummaryLine: "trim quotedSummaryLine = quotedSummaryLine"
  by (simp add: quotedSummaryLine_def js_def char_defs)

lemma classify_quotedSummaryLine:
  "classifyLine quotedSummaryLine = (34 # js ''summary'' @ [34], 2)"
  by (simp add: quotedSummaryLine_def js_def classifyLine_def headerMatch_def char_defs)

lemma match_quoted_summary:
  "headerMatches asciiLowerCase (js ''summary'') (34 # js ''summary'' @ [34])"
  by (simp add: js_def headerMatches_def char_defs)

lemma js_nonempty2: "js ''Summary:'' \<noteq> []" "js ''summary'' \<noteq> []" "js ''# Notes'' \<noteq> []"
   "js ''Notes'' \<noteq> []" "quotedSummaryLine \<noteq> []"
  by (simp_all add: js_def quotedSummaryLine_def)

text \<open>The header pass on a prefix it does not match, and on the quoted header.\<close>

lemma scanHeaders_append:
  "scanHeaders lower t i pre = None \<Longrightarrow>
   scanHeaders lower t i (pre @ ls) = scanHeaders lower t (i + length pre) ls"
  by (induction pre arbitrary: i) (auto simp: Let_def split: prod.splits if_splits)

lemma quotedSummaryHeader_two: "quotedSummaryHeader 2 = quotedSummaryLine"
  by (simp add: quotedSummaryHeader_def quotedSummaryLine_def js_def replicate_two)

lemma trim_quotedSummaryHeader: "0 < n \<Longrightarrow> trim (quotedSummaryHeader n) = quotedSummaryHeader n"
  by (cases n) (simp_all add: quotedSummaryHeader_def js_def trim_def dropWhileEnd_def isWhiteSpace_def)

lemma takeWhile_markers: "c \<noteq> x \<Longrightarrow> takeWhile (\<lambda>a. a = x) (replicate n x @ c # r) = replicate n x"
  by (induction n) auto

lemma dropWhile_markers: "c \<noteq> x \<Longrightarrow> dropWhile (\<lambda>a. a = x) (replicate n x @ c # r) = c # r"
  by (induction n) auto

lemma headerMatch_quotedSummaryHeader:
  "0 < n \<Longrightarrow> headerMatch (quotedSummaryHeader n) = Some (n, 34 # js ''summary'' @ [34])"
  by (cases n)
    (simp_all add: quotedSummaryHeader_def js_def headerMatch_def isWhiteSpace_def
      isLineTerminator_def takeWhile_markers dropWhile_markers Let_def)

lemma classify_quotedSummaryHeader:
  "0 < n \<Longrightarrow> classifyLine (quotedSummaryHeader n) = (34 # js ''summary'' @ [34], n)"
  by (simp add: classifyLine_def headerMatch_quotedSummaryHeader js_def char_defs)

lemma quotedSummaryHeader_nonempty: "quotedSummaryHeader n \<noteq> []"
  by (simp add: quotedSummaryHeader_def)

lemma scanHeaders_quotedSummaryHeader:
  "0 < n \<Longrightarrow>
   scanHeaders asciiLowerCase (js ''summary'') i (quotedSummaryHeader n # post) =
     Some \<lparr>index = int i, level = n\<rparr>"
  by (simp add: trim_quotedSummaryHeader classify_quotedSummaryHeader match_quoted_summary
      quotedSummaryHeader_nonempty)

lemma trim_longSummaryLine: "trim longSummaryLine = longSummaryLine"
  by (simp add: longSummaryLine_def js_def trim_def dropWhileEnd_def isWhiteSpace_def)

lemma classify_longSummaryLine: "classifyLine longSummaryLine = ([], 0)"
  by (simp add: longSummaryLine_def js_def classifyLine_def headerMatch_def boldMatch_def
      isBoldMarker_def isWhiteSpace_def)

lemma lower_longSummaryLine: "asciiLowerCase longSummaryLine = longSummaryLine"
  by (simp add: longSummaryLine_def js_def asciiLowerCase_def)

lemma includes_longSummaryLine: "includesStr longSummaryLine (js ''summary'')"
  by (simp add: longSummaryLine_def js_def startsWith_def)

lemma longSummaryLine_nonempty: "longSummaryLine \<noteq> []"
  by (simp add: longSummaryLine_def js_def)

lemma scanHeaders_longSummaryLine:
  "scanHeaders asciiLowerCase (js ''summary'') i [longSummaryLine] = None"
  by (simp add: trim_longSummaryLine classify_longSummaryLine longSummaryLine_nonempty)

lemma scanAnyLine_longSummaryLine:
  "scanAnyLine asciiLowerCase (js ''summary'') i (longSummaryLine # rest) =
     Some \<lparr>index = int i, level = 2\<rparr>"
  by (simp add: trim_longSummaryLine lower_longSummaryLine includes_longSummaryLine
      longSummaryLine_nonempty)

lemma split_docLongLine:
  "split_nl docLongLine = [longSummaryLine, quotedSummaryLine, js ''body'']"
proof -
  have a: "NL \<notin> set longSummaryLine" by (simp add: longSummaryLine_def js_def NL_def)
  have b: "split_nl (quotedSummaryLine @ [NL] @ js ''body'') = [quotedSummaryLine, js ''body'']"
    by (simp add: quotedSummaryLine_def js_def NL_def)
  show ?thesis
    unfolding docLongLine_def using split_nl_append[of longSummaryLine] split_nl_line[OF a] b
    by simp
qed


section \<open>Step executor: one turn of the retry loop\<close>

lemma streamChunks_effects:
  "streamChunks msgId t th cs w =
     \<lparr>nextMessageId = nextMessageId w,
      effects = effects w @ effects (streamChunks msgId t th cs \<lparr>nextMessageId = 0, effects = []\<rparr>)\<rparr>"
proof (induction cs arbitrary: t th w)
  case Nil
  then show ?case by simp
next
  case (Cons c cs)
  show ?case
    apply (simp only: streamChunks.simps Let_def)
    apply (subst Cons.IH)
    apply (subst (2) Cons.IH)
    apply (simp add: emit_def)
    done
qed

lemma streamChunks_updates:
  "streamChunks msgId [] [] cs w =
     \<lparr>nextMessageId = nextMessageId w, effects = effects w @ streamUpdates msgId cs\<rparr>"
  unfolding streamUpdates_def by (rule streamChunks_effects)

lemma afterCall_failure:
  "\<not> cancelledAfterCall a \<Longrightarrow> failureOf a = Some e \<Longrightarrow> afterCall msgId a w = (Inl e, w)"
  by (auto simp: afterCall_def failureOf_def split: TransportOutcome.splits if_splits)

lemma afterCall_success:
  "\<not> cancelledAfterCall a \<Longrightarrow> outcome a = Returned r \<Longrightarrow> failureOf a = None \<Longrightarrow>
   afterCall msgId a w =
     (Inr (parseAIResponse (responseText r)),
      w\<lparr>effects := effects w @
          [SetGlobalApiKeyStatus,
           UpdateMessage msgId
             \<lparr>updText = Some (spokenText (parseAIResponse (responseText r))),
              updThoughts = responseThoughts r, updDurationMs = Some (durationMs r)\<rparr>]\<rparr>)"
  by (auto simp: afterCall_def failureOf_def emit_def Let_def split: if_splits)

lemma afterCall_cancelled:
  "cancelledAfterCall a \<Longrightarrow> \<exists>e. afterCall msgId a w = (Inl e, w)"
  by (auto simp: afterCall_def split: TransportOutcome.splits)

lemma executeLoop_retry:
  assumes "k < MAX_AUTO_RETRIES cfg"
    and "\<not> cancelledAtStart (env k)" and "\<not> cancelledAfterCall (env k)"
    and "failureOf (env k) = Some e" and "errorName e \<noteq> js ''AbortError''"
  shows "executeLoop cfg req env k w =
     executeLoop cfg req env (k + 1)
       \<lparr>nextMessageId = nextMessageId w + 2,
        effects = effects w @ attemptStart cfg req (nextMessageId w) (env k) @
          [AddMessage (nextMessageId w + 1) (retryNotice (errorMessage e)) System SystemNotification,
           Delay (RETRY_DELAY_BASE_MS cfg * (k + 1))]\<rparr>"
  using assms
  by (subst executeLoop.simps)
     (simp add: addMessage_def emit_def streamChunks_updates afterCall_failure attemptStart_def)

lemma executeLoop_exhausted:
  assumes "k = MAX_AUTO_RETRIES cfg"
    and "\<not> cancelledAtStart (env k)" and "\<not> cancelledAfterCall (env k)"
    and "failureOf (env k) = Some e" and "errorName e \<noteq> js ''AbortError''"
  shows "executeLoop cfg req env k w =
     (Inl e,
       \<lparr>nextMessageId = nextMessageId w + 2,
        effects = effects w @ attemptStart cfg req (nextMessageId w) (env k) @
          [AddMessage (nextMessageId w + 1) (failureNotice (errorMessage e)) System SystemNotification,
           SetFailedStepInfo (failedStepPayload cfg req (nextMessageId w + 1)),
           SetIsInternalDiscussionActive False]\<rparr>)"
  using assms
  by (subst executeLoop.simps)
     (simp add: addMessage_def emit_def streamChunks_updates afterCall_failure attemptStart_def)

lemma executeLoop_success:
  assumes "k \<le> MAX_AUTO_RETRIES cfg"
    and "\<not> cancelledAtStart (env k)" and "\<not> cancelledAfterCall (env k)"
    and "outcome (env k) = Returned r" and "failureOf (env k) = None"
  shows "executeLoop cfg req env k w =
     (Inr (Some (parseAIResponse (responseText r))),
       \<lparr>nextMessageId = nextMessageId w + 1,
        effects = effects w @ attemptStart cfg req (nextMessageId w) (env k) @
          [SetGlobalApiKeyStatus,
           UpdateMessage (nextMessageId w)
             \<lparr>updText = Some (spokenText (parseAIResponse (responseText r))),
              updThoughts = responseThoughts r, updDurationMs = Some (durationMs r)\<rparr>]\<rparr>)"
  using assms
  by (subst executeLoop.simps)
     (simp add: addMessage_def emit_def streamChunks_updates afterCall_success attemptStart_def)

lemma executeLoop_cancelled_at_start:
  "k \<le> MAX_AUTO_RETRIES cfg \<Longrightarrow> cancelledAtStart (env k) \<Longrightarrow>
   executeLoop cfg req env k w = (Inl cancelledError, w)"
  by (subst executeLoop.simps) simp

lemma executeLoop_cancelled_after_call:
  assumes "k \<le> MAX_AUTO_RETRIES cfg"
    and "\<not> cancelledAtStart (env k)" and "cancelledAfterCall (env k)"
  shows "executeLoop cfg req env k w =
     (Inl cancelledError,
       \<lparr>nextMessageId = nextMessageId w + 1,
        effects = effects w @ attemptStart cfg req (nextMessageId w) (env k)\<rparr>)"
proof -
  let ?w3 = "\<lparr>nextMessageId = Suc (nextMessageId w),
        effects = effects w @ attemptStart cfg req (nextMessageId w) (env k)\<rparr>"
  obtain e where "afterCall (nextMessageId w) (env k) ?w3 = (Inl e, ?w3)"
    using afterCall_cancelled[OF assms(3)] by blast
  then show ?thesis
    using assms
    by (subst executeLoop.simps)
       (simp add: addMessage_def emit_def streamChunks_updates attemptStart_def)
qed

lemma failureOf_failedAttempt:
  "failureOf failedAttempt = Some \<lparr>errorName = js ''Error'', errorMessage = js ''overloaded''\<rparr>"
  by (simp add: failureOf_def failedAttempt_def js_def)

lemma failureOf_okAttempt: "failureOf okAttempt = None"
  by (simp add: failureOf_def okAttempt_def)

lemma generateResponse_abortedMidStream:
  "generateResponse (Some (js ''key'')) abortedMidStream StreamDone 7 =
     (\<lparr>responseText = cancelMessage, responseThoughts = None, durationMs = 7,
       responseError = Some (js ''AbortError'')\<rparr>,
      [\<lparr>chunkText = Some (js ''Hel''), chunkThoughts = Some []\<rparr>])"
proof -
  have k: "js ''key'' \<noteq> []" and k': "js ''Hel'' \<noteq> []" by (simp_all add: js_def)
  have "consumeStream [] [] abortedMidStream StreamDone =
      (Inl abortException, [\<lparr>chunkText = Some (js ''Hel''), chunkThoughts = Some []\<rparr>])"
    by (simp add: abortedMidStream_def chunkTexts_def partTextOr_def Let_def k' )
  then show ?thesis
    by (simp add: generateResponse_def k abortException_def)
qed

lemma abortedAttempt_eq:
  "abortedAttempt =
     \<lparr>cancelledAtStart = False,
      chunks = [\<lparr>chunkText = Some (js ''Hel''), chunkThoughts = Some []\<rparr>],
      outcome = Returned \<lparr>responseText = cancelMessage, responseThoughts = None, durationMs = 7,
                          responseError = Some (js ''AbortError'')\<rparr>,
      cancelledAfterCall = False\<rparr>"
  by (simp add: abortedAttempt_def generateResponse_abortedMidStream)

lemma failureOf_abortedAttempt: "failureOf abortedAttempt = Some cancelledError"
  by (simp add: failureOf_def abortedAttempt_eq js_def)

lemma Error_not_AbortError: "js ''Error'' \<noteq> js ''AbortError''"
  by (simp add: js_def)

lemma executeLoop_never_null:
  "k \<le> MAX_AUTO_RETRIES cfg \<Longrightarrow> fst (executeLoop cfg req env k w) \<noteq> Inr None"
proof (induction cfg req env k w rule: executeLoop.induct)
  case (1 cfg req env k w)
  show ?case
    apply (subst executeLoop.simps)
    using 1
    apply (auto simp: Let_def addMessage_def split: prod.splits sum.splits if_splits)
    done
qed

lemma executeStep_never_null: "fst (executeStep cfg req env w) \<noteq> Inr None"
  unfolding executeStep_def by (rule executeLoop_never_null) simp

section \<open>Evaluation of the parser\<close>

lemmas reply_defs = exampleReply_def exampleFence_def exampleJson_def quoted_def ticks_def js_def NL_def

lemmas fuel_numeral =
  parseValue.simps(2)[of "pred_numeral k" for k, folded numeral_eq_Suc]
  parseElements.simps(2)[of "pred_numeral k" for k, folded numeral_eq_Suc]
  parseMembers.simps(2)[of "pred_numeral k" for k, folded numeral_eq_Suc]

lemmas json_defs = skipWs_def isJsonWs_def isDigit_def hexDigit_def hex4_def simpleEscape_def
  parseDigits_def parseInt_def parseFrac_def parseExp_def parseNumber_def startsWith_def

lemma matchFences_Nil: "matchFences [] = []"
  by (subst matchFences.simps) (simp add: ticks_def)

lemma matchFences_exampleReply:
  "matchFences exampleReply =
     [(exampleFence, exampleJson)]"
proof -
  define post where "post = js ''json'' @ [NL] @ exampleJson @ [NL] @ ticks"
  define jtail where "jtail = exampleJson @ [NL] @ ticks"
  define body where "body = exampleJson @ [NL]"
  have f1: "splitAtFirst ticks exampleReply = Some (js ''Hello'' @ [NL], post)"
    unfolding post_def reply_defs by (simp add: startsWith_def)
  have f2: "dropWhile isWhiteSpace (skipJsonTag post) = jtail"
    unfolding post_def jtail_def reply_defs
    by (simp add: skipJsonTag_def asciiLowerCase_def isWhiteSpace_def)
  have f3: "splitAtFirst ticks jtail = Some (body, [])"
    unfolding jtail_def body_def reply_defs by (simp add: startsWith_def)
  have f4: "dropWhileEnd isWhiteSpace body = exampleJson"
    unfolding body_def reply_defs by (simp add: dropWhileEnd_def isWhiteSpace_def)
  have "matchFences exampleReply = [(ticks @ take (length post - length ([]::jsstring)) post, exampleJson)]"
    by (subst matchFences.simps) (simp add: f1 f2 f3 f4 matchFences_Nil)
  then show ?thesis by (simp add: post_def exampleFence_def)
qed

lemma length_exampleJson: "length exampleJson = 88"
  unfolding reply_defs by simp

lemma JSON_parse_exampleJson: "JSON_parse exampleJson = Some exampleValue"
proof -
  have "parseValue 178 (skipWs exampleJson) = Some (exampleValue, [])"
    unfolding reply_defs exampleValue_def by (simp add: fuel_numeral json_defs)
  then show ?thesis
    by (simp add: JSON_parse_def length_exampleJson skipWs_def)
qed

lemma exampleJson_nonempty: "exampleJson \<noteq> []"
  unfolding reply_defs by simp

lemma robustJsonParse_exampleJson: "robustJsonParse exampleJson = exampleValue"
  by (simp add: robustJsonParse_def JSON_parse_exampleJson exampleJson_nonempty)

lemma selectCandidate_exampleReply:
  "selectCandidate exampleReply =
     (Some exampleJson, Some exampleFence)"
  by (simp add: selectCandidate_def matchFences_exampleReply)

lemma removeJsonText_exampleReply:
  "removeJsonText exampleReply exampleFence = js ''Hello''"
  unfolding reply_defs
  by (simp add: removeJsonText_def endsWith_def trim_def dropWhileEnd_def isWhiteSpace_def)

lemma mods_exampleValue:
  "notepadModificationsOf exampleValue =
     [JObject [(js ''action'', JString (js ''append'')), (js ''content'', JString (js ''X''))]]"
  by (simp add: exampleValue_def jsonGet_def js_def)

lemma ended_exampleValue: "discussionCompleteOf exampleValue"
  by (simp add: exampleValue_def jsonGet_def js_def)

lemma isObject_exampleValue: "isObjectValue exampleValue"
  by (simp add: exampleValue_def)

lemma fence_nonempty: "exampleFence \<noteq> []"
  by (simp add: exampleFence_def ticks_def)

lemma trim_Hello: "trim (js ''Hello'') \<noteq> []"
  by (simp add: js_def trim_def dropWhileEnd_def isWhiteSpace_def)

lemma matchFences_single:
  assumes "splitAtFirst ticks s = Some (pre, post)"
    and "dropWhile isWhiteSpace (skipJsonTag post) = g"
    and "splitAtFirst ticks g = Some (body, [])"
  shows "matchFences s = [(ticks @ post, dropWhileEnd isWhiteSpace body)]"
  by (subst matchFences.simps) (simp add: assms matchFences_Nil)

lemmas fence_defs = proseFenceReply_def numberFenceReply_def emptyFenceReply_def unknownReply_def
  unknownJson_def heuristicFailReply_def quoted_def ticks_def js_def NL_def

lemma matchFences_proseFenceReply:
  "map snd (matchFences proseFenceReply) = [js ''not json'']"
proof -
  define post where "post = [NL] @ js ''not json'' @ [NL] @ ticks"
  define g where "g = js ''not json'' @ [NL] @ ticks"
  define body where "body = js ''not json'' @ [NL]"
  have f1: "splitAtFirst ticks proseFenceReply = Some (js ''Hi'' @ [NL], post)"
    unfolding post_def fence_defs by (simp add: startsWith_def)
  have f2: "dropWhile isWhiteSpace (skipJsonTag post) = g"
    unfolding post_def g_def fence_defs
    by (simp add: skipJsonTag_def asciiLowerCase_def isWhiteSpace_def)
  have f3: "splitAtFirst ticks g = Some (body, [])"
    unfolding g_def body_def fence_defs by (simp add: startsWith_def)
  have f4: "dropWhileEnd isWhiteSpace body = js ''not json''"
    unfolding body_def fence_defs by (simp add: dropWhileEnd_def isWhiteSpace_def)
  show ?thesis using matchFences_single[OF f1 f2 f3] f4 by simp
qed

lemma matchFences_numberFenceReply:
  "map snd (matchFences numberFenceReply) = [js ''42'']"
proof -
  define post where "post = [NL] @ js ''42'' @ [NL] @ ticks"
  define g where "g = js ''42'' @ [NL] @ ticks"
  define body where "body = js ''42'' @ [NL]"
  have f1: "splitAtFirst ticks numberFenceReply = Some (js ''Hi'' @ [NL], post)"
    unfolding post_def fence_defs by (simp add: startsWith_def)
  have f2: "dropWhile isWhiteSpace (skipJsonTag post) = g"
    unfolding post_def g_def fence_defs
    by (simp add: skipJsonTag_def asciiLowerCase_def isWhiteSpace_def)
  have f3: "splitAtFirst ticks g = Some (body, [])"
    unfolding g_def body_def fence_defs by (simp add: startsWith_def)
  have f4: "dropWhileEnd isWhiteSpace body = js ''42''"
    unfolding body_def fence_defs by (simp add: dropWhileEnd_def isWhiteSpace_def)
  show ?thesis using matchFences_single[OF f1 f2 f3] f4 by simp
qed

lemma matchFences_emptyFenceReply:
  "map snd (matchFences emptyFenceReply) = [[]]"
proof -
  define post where "post = [NL] @ ticks"
  have f1: "splitAtFirst ticks emptyFenceReply = Some (js ''Hi'' @ [NL], post)"
    unfolding post_def fence_defs by (simp add: startsWith_def)
  have f2: "dropWhile isWhiteSpace (skipJsonTag post) = ticks"
    unfolding post_def fence_defs
    by (simp add: skipJsonTag_def asciiLowerCase_def isWhiteSpace_def)
  have f3: "splitAtFirst ticks ticks = Some ([], [])"
    unfolding fence_defs by (simp add: startsWith_def)
  show ?thesis using matchFences_single[OF f1 f2 f3] by (simp add: dropWhileEnd_def)
qed

lemma matchFences_unknownReply:
  "map snd (matchFences unknownReply) = [unknownJson]"
proof -
  define post where "post = [NL] @ unknownJson @ [NL] @ ticks"
  define g where "g = unknownJson @ [NL] @ ticks"
  define body where "body = unknownJson @ [NL]"
  have f1: "splitAtFirst ticks unknownReply = Some ([], post)"
    unfolding post_def fence_defs by (simp add: startsWith_def)
  have f2: "dropWhile isWhiteSpace (skipJsonTag post) = g"
    unfolding post_def g_def fence_defs
    by (simp add: skipJsonTag_def asciiLowerCase_def isWhiteSpace_def)
  have f3: "splitAtFirst ticks g = Some (body, [])"
    unfolding g_def body_def fence_defs by (simp add: startsWith_def)
  have f4: "dropWhileEnd isWhiteSpace body = unknownJson"
    unfolding body_def fence_defs by (simp add: dropWhileEnd_def isWhiteSpace_def)
  show ?thesis using matchFences_single[OF f1 f2 f3] f4 by simp
qed

lemma matchFences_heuristicFailReply: "matchFences heuristicFailReply = []"
proof -
  have "splitAtFirst ticks heuristicFailReply = None"
    unfolding fence_defs by (simp add: startsWith_def)
  then show ?thesis by (subst matchFences.simps) simp
qed

lemma last_fenced_body:
  "map snd (matchFences t) = [c] \<Longrightarrow> matchFences t \<noteq> [] \<and> snd (last (matchFences t)) = c"
  by (cases "matchFences t") auto

lemma unparsable_not_json: "unparsableAfterRepairs (js ''not json'')"
  unfolding unparsableAfterRepairs_def JSON_parse_def js_def
  by (simp add: fuel_numeral json_defs isWhiteSpace_def)

lemma unparsable_empty: "unparsableAfterRepairs []"
  unfolding unparsableAfterRepairs_def JSON_parse_def
  by (simp add: fuel_numeral json_defs)

lemma JSON_parse_42: "JSON_parse (js ''42'') = Some (JNumber (js ''42''))"
  unfolding JSON_parse_def js_def
  by (simp add: fuel_numeral json_defs)

lemma JSON_parse_unknownJson:
  "JSON_parse unknownJson =
     Some (JObject [(js ''notepad_modifications'',
                     JArray [JObject [(js ''action'', JString (js ''delete_all''))]])])"
proof -
  have l: "length unknownJson = 51" unfolding fence_defs by simp
  have "parseValue 104 (skipWs unknownJson) =
     Some (JObject [(js ''notepad_modifications'',
                     JArray [JObject [(js ''action'', JString (js ''delete_all''))]])], [])"
    unfolding fence_defs by (simp add: fuel_numeral json_defs)
  then show ?thesis by (simp add: JSON_parse_def l skipWs_def)
qed

lemma failureOf_parseErrorAttempt: "failureOf parseErrorAttempt = None"
  by (simp add: failureOf_def parseErrorAttempt_def)

section \<open>Directive parser: when a parse error is recorded\<close>

lemma buildResponse_error:
  "parsingErrorOf (buildResponse s mods ended e) = e"
  by (cases e) (simp_all add: parsingErrorOf_def buildResponse_def)

lemma robustJsonParse_unparsable:
  "unparsableAfterRepairs c \<Longrightarrow> robustJsonParse c = JNull"
  by (simp add: unparsableAfterRepairs_def robustJsonParse_def)

lemma selectCandidate_fenced:
  "matchFences t \<noteq> [] \<Longrightarrow>
   selectCandidate t = (Some (snd (last (matchFences t))), Some (fst (last (matchFences t))))"
  by (simp add: selectCandidate_def Let_def)

lemma selectCandidate_unfenced:
  "matchFences t = [] \<Longrightarrow>
   selectCandidate t = (heuristicCandidate t, heuristicCandidate t)"
  by (simp add: selectCandidate_def Let_def split: option.splits)

lemma parsingError_fenced:
  assumes "matchFences t \<noteq> []"
  shows "parsingErrorOf (parseAIResponse t) =
     (if snd (last (matchFences t)) \<noteq> [] \<and>
         \<not> isObjectValue (robustJsonParse (snd (last (matchFences t))))
      then Some parseErrorMessage else None)"
  using assms
  by (simp add: parseAIResponse_def selectCandidate_fenced buildResponse_error Let_def)

lemma parsingError_unfenced:
  assumes "matchFences t = []"
  shows "parsingErrorOf (parseAIResponse t) = None"
  using assms
  by (simp add: parseAIResponse_def selectCandidate_unfenced buildResponse_error Let_def
      split: option.splits)

lemma parseAIResponse_error_payload:
  assumes "parsingErrorOf (parseAIResponse t) \<noteq> None"
  shows "notepadUpdate (parseAIResponse t) =
           Some \<lparr>modifications = None, error = Some parseErrorMessage\<rparr> \<and>
         discussionShouldEnd (parseAIResponse t) = False"
proof (cases "matchFences t = []")
  case True
  then show ?thesis using assms parsingError_unfenced by simp
next
  case False
  then have "snd (last (matchFences t)) \<noteq> [] \<and>
         \<not> isObjectValue (robustJsonParse (snd (last (matchFences t))))"
    using assms parsingError_fenced[OF False] by (simp split: if_splits)
  then show ?thesis using False
    by (simp add: parseAIResponse_def selectCandidate_fenced buildResponse_def Let_def)
qed

lemma executeStep_first_attempt_success:
  assumes "\<not> cancelledAtStart (env 0)" and "\<not> cancelledAfterCall (env 0)"
    and "outcome (env 0) = Returned r" and "failureOf (env 0) = None"
  shows "fst (executeStep cfg req env w) = Inr (Some (parseAIResponse (responseText r)))"
  unfolding executeStep_def
  using executeLoop_success[where k = 0 and env = env and cfg = cfg and r = r and w = w and req = req]
    assms by simp

section \<open>JSON parser: the bound on nested calls suffices\<close>

lemma parseStringBody_rest:
  "parseStringBody s = Some (v, r) \<Longrightarrow> length r < length s"
proof (induction s arbitrary: v r rule: parseStringBody.induct)
  case 1
  then show ?case by simp
next
  case (2 c)
  then show ?case by (simp split: if_splits)
next
  case (3 c e r')
  then show ?case
    by (fastforce split: if_splits option.splits)
qed

lemma parseDigits_rest: "parseDigits s = Some (v, r) \<Longrightarrow> length r \<le> length s"
  by (auto simp: parseDigits_def length_dropWhile_le split: if_splits)

lemma parseInt_rest: "parseInt s = Some (v, r) \<Longrightarrow> length r < length s"
  by (auto simp: parseInt_def split: list.splits if_splits intro: le_imp_less_Suc length_dropWhile_le)

lemma parseFrac_rest: "parseFrac s = Some (v, r) \<Longrightarrow> length r \<le> length s"
  by (auto simp: parseFrac_def split: list.splits if_splits dest!: parseDigits_rest)

lemma parseExp_rest: "parseExp s = Some (v, r) \<Longrightarrow> length r \<le> length s"
  by (auto simp: parseExp_def split: list.splits if_splits dest!: parseDigits_rest)

lemma parseNumber_rest: "parseNumber s = Some (v, r) \<Longrightarrow> length r < length s"
proof -
  assume a: "parseNumber s = Some (v, r)"
  define sign where "sign = (if startsWith s [45] then [45] else ([]::jsstring))"
  obtain i s2 where i: "parseInt (drop (length sign) s) = Some (i, s2)"
    using a by (auto simp: parseNumber_def sign_def Let_def split: option.splits)
  obtain f s3 where f: "parseFrac s2 = Some (f, s3)"
    using a i by (auto simp: parseNumber_def sign_def Let_def split: option.splits)
  obtain x s4 where x: "parseExp s3 = Some (x, s4)"
    using a i f by (auto simp: parseNumber_def sign_def Let_def split: option.splits)
  have "r = s4" using a i f x by (auto simp: parseNumber_def sign_def Let_def)
  moreover have "length s2 < length (drop (length sign) s)" using parseInt_rest[OF i] .
  moreover have "length s3 \<le> length s2" using parseFrac_rest[OF f] .
  moreover have "length s4 \<le> length s3" using parseExp_rest[OF x] .
  ultimately show ?thesis by simp
qed


lemma skipWs_length: "length (skipWs s) \<le> length s"
  by (simp add: skipWs_def length_dropWhile_le)

lemma skipWs_Cons: "skipWs s = d # r \<Longrightarrow> length r < length s"
  using skipWs_length[of s] by simp

lemma parse_rest:
  "(\<forall>s v r. parseValue n s = Some (v, r) \<longrightarrow> length r < length s) \<and>
   (\<forall>s v r. parseElements n s = Some (v, r) \<longrightarrow> length r < length s) \<and>
   (\<forall>s v r. parseMembers n s = Some (v, r) \<longrightarrow> length r < length s)"
proof (induction n)
  case 0
  then show ?case by simp
next
  case (Suc n)
  have V: "parseValue n s = Some (v, r) \<Longrightarrow> length r < length s" for s v r
    using Suc by blast
  have E: "parseElements n s = Some (v, r) \<Longrightarrow> length r < length s" for s v r
    using Suc by blast
  have M: "parseMembers n s = Some (v, r) \<Longrightarrow> length r < length s" for s v r
    using Suc by blast
  have v: "length r < length s" if a: "parseValue (Suc n) s = Some (v, r)" for s v r
  proof (cases s)
    case Nil
    then show ?thesis using a by simp
  next
    case (Cons c cs)
    consider (obj) "c = 123" | (arr) "c \<noteq> 123" "c = 91" | (str) "c \<noteq> 123" "c \<noteq> 91" "c = 34"
      | (other) "c \<noteq> 123" "c \<noteq> 91" "c \<noteq> 34" by blast
    then show ?thesis
    proof cases
      case obj
      then obtain d r' where sk: "skipWs cs = d # r'"
        using a Cons by (cases "skipWs cs") auto
      show ?thesis
      proof (cases "d = 125")
        case True
        then show ?thesis using a Cons obj sk skipWs_Cons[OF sk] by auto
      next
        case False
        then obtain ms where "parseMembers n (d # r') = Some (ms, r)"
          using a Cons obj sk by auto
        then have "length r < length (d # r')" by (rule M)
        then show ?thesis using skipWs_Cons[OF sk] Cons by simp
      qed
    next
      case arr
      then obtain d r' where sk: "skipWs cs = d # r'"
        using a Cons by (cases "skipWs cs") auto
      show ?thesis
      proof (cases "d = 93")
        case True
        then show ?thesis using a Cons arr sk skipWs_Cons[OF sk] by auto
      next
        case False
        then obtain vs where "parseElements n (d # r') = Some (vs, r)"
          using a Cons arr sk by auto
        then have "length r < length (d # r')" by (rule E)
        then show ?thesis using skipWs_Cons[OF sk] Cons by simp
      qed
    next
      case str
      then obtain x where "parseStringBody cs = Some (x, r)"
        using a Cons by auto
      then show ?thesis using parseStringBody_rest Cons by fastforce
    next
      case other
      then show ?thesis
        using a Cons parseNumber_rest[of s _ r]
        by (auto split: if_splits)
    qed
  qed
  have e: "length r < length s" if a: "parseElements (Suc n) s = Some (vs, r)" for s vs r
  proof -
    obtain x r1 where p: "parseValue n s = Some (x, r1)"
      using a by (auto split: option.splits)
    obtain d r2 where sk: "skipWs r1 = d # r2"
      using a p by (cases "skipWs r1") auto
    have l1: "length r1 < length s" using V[OF p] .
    have l2: "length r2 < length r1" using skipWs_Cons[OF sk] .
    show ?thesis
    proof (cases "d = 44")
      case True
      then obtain vs' where "parseElements n (skipWs r2) = Some (vs', r)"
        using a p sk by auto
      then have "length r < length (skipWs r2)" by (rule E)
      then show ?thesis using l1 l2 skipWs_length[of r2] by simp
    next
      case False
      then have "r = r2" using a p sk by (auto split: if_splits)
      then show ?thesis using l1 l2 by simp
    qed
  qed
  have m: "length r < length s" if a: "parseMembers (Suc n) s = Some (ms, r)" for s ms r
  proof -
    obtain cs where s: "s = 34 # cs"
      using a by (cases s) (auto split: if_splits)
    obtain k r1 where p: "parseStringBody cs = Some (k, r1)"
      using a s by (auto split: option.splits)
    obtain r2 where sk: "skipWs r1 = 58 # r2"
      using a s p by (cases "skipWs r1") (auto split: if_splits)
    obtain x r3 where pv: "parseValue n (skipWs r2) = Some (x, r3)"
      using a s p sk by (auto split: option.splits)
    obtain d r4 where sk2: "skipWs r3 = d # r4"
      using a s p sk pv by (cases "skipWs r3") auto
    have l1: "length r1 < length cs" using parseStringBody_rest[OF p] .
    have l2: "length r2 < length r1" using skipWs_Cons[OF sk] .
    have l3: "length r3 < length (skipWs r2)" using V[OF pv] .
    have l4: "length r4 < length r3" using skipWs_Cons[OF sk2] .
    show ?thesis
    proof (cases "d = 44")
      case True
      then obtain ms' where "parseMembers n (skipWs r4) = Some (ms', r)"
        using a s p sk pv sk2 by auto
      then have "length r < length (skipWs r4)" by (rule M)
      then show ?thesis using s l1 l2 l3 l4 skipWs_length[of r2] skipWs_length[of r4] by simp
    next
      case False
      then have "r = r4" using a s p sk pv sk2 by (auto split: if_splits)
      then show ?thesis using s l1 l2 l3 l4 skipWs_length[of r2] by simp
    qed
  qed
  show ?case using v e m by blast
qed


lemma parse_fuel_step:
  "(\<forall>s. 2 * length s + 2 \<le> n \<longrightarrow> parseValue (Suc n) s = parseValue n s) \<and>
   (\<forall>s. 2 * length s + 3 \<le> n \<longrightarrow> parseElements (Suc n) s = parseElements n s) \<and>
   (\<forall>s. 2 * length s + 3 \<le> n \<longrightarrow> parseMembers (Suc n) s = parseMembers n s)"
proof (induction n)
  case 0
  then show ?case by simp
next
  case (Suc n)
  have V: "2 * length s + 2 \<le> n \<Longrightarrow> parseValue (Suc n) s = parseValue n s" for s
    using Suc by blast
  have E: "2 * length s + 3 \<le> n \<Longrightarrow> parseElements (Suc n) s = parseElements n s" for s
    using Suc by blast
  have M: "2 * length s + 3 \<le> n \<Longrightarrow> parseMembers (Suc n) s = parseMembers n s" for s
    using Suc by blast
  have v: "parseValue (Suc (Suc n)) s = parseValue (Suc n) s" if b: "2 * length s + 2 \<le> Suc n" for s
  proof (cases s)
    case Nil
    then show ?thesis by simp
  next
    case (Cons c cs)
    note l = parseValue.simps(2)[of "Suc n" "c # cs"] and r = parseValue.simps(2)[of n "c # cs"]
    show ?thesis
    proof (cases "skipWs cs")
      case Nil
      show ?thesis unfolding Cons l r by (simp only: Nil list.case)
    next
      case sk: (Cons d r')
      have "length (d # r') \<le> length cs" using skipWs_length[of cs] sk by simp
      then have "2 * length (d # r') + 3 \<le> n" using b Cons by simp
      then have f: "parseMembers (Suc n) (d # r') = parseMembers n (d # r')"
        "parseElements (Suc n) (d # r') = parseElements n (d # r')"
        using M E by blast+
      show ?thesis unfolding Cons l r by (simp only: sk list.case f)
    qed
  qed
  have e: "parseElements (Suc (Suc n)) s = parseElements (Suc n) s" if b: "2 * length s + 3 \<le> Suc n" for s
  proof -
    note l = parseElements.simps(2)[of "Suc n" s] and r = parseElements.simps(2)[of n s]
    have pv: "parseValue (Suc n) s = parseValue n s" using V b by simp
    show ?thesis
    proof (cases "parseValue n s")
      case None
      show ?thesis unfolding l r by (simp only: pv None option.case)
    next
      case (Some a)
      obtain x r1 where a: "a = (x, r1)" by (cases a)
      have l1: "length r1 < length s" using parse_rest Some a by blast
      show ?thesis
      proof (cases "skipWs r1")
        case Nil
        show ?thesis unfolding l r by (simp only: pv Some a option.case prod.case Nil list.case)
      next
        case sk: (Cons d r2)
        have "length (skipWs r2) < length r1"
          using skipWs_Cons[OF sk] skipWs_length[of r2] by simp
        then have "2 * length (skipWs r2) + 3 \<le> n" using l1 b by simp
        then have f: "parseElements (Suc n) (skipWs r2) = parseElements n (skipWs r2)"
          using E by blast
        show ?thesis unfolding l r by (simp only: pv Some a option.case prod.case sk list.case f)
      qed
    qed
  qed
  have m: "parseMembers (Suc (Suc n)) s = parseMembers (Suc n) s" if b: "2 * length s + 3 \<le> Suc n" for s
  proof (cases s)
    case Nil
    then show ?thesis by simp
  next
    case (Cons q cs)
    note l = parseMembers.simps(2)[of "Suc n" "q # cs"] and r = parseMembers.simps(2)[of n "q # cs"]
    show ?thesis
    proof (cases "parseStringBody cs")
      case None
      show ?thesis unfolding Cons l r by (simp only: None option.case list.case)
    next
      case (Some a)
      obtain k r1 where a: "a = (k, r1)" by (cases a)
      have l1: "length r1 < length cs" using parseStringBody_rest Some a by blast
      show ?thesis
      proof (cases "skipWs r1")
        case Nil
        show ?thesis unfolding Cons l r by (simp only: Some a option.case prod.case Nil list.case)
      next
        case sk: (Cons colon r2)
        have l2: "length (skipWs r2) < length r1"
          using skipWs_Cons[OF sk] skipWs_length[of r2] by simp
        then have "2 * length (skipWs r2) + 2 \<le> n" using l1 b Cons by simp
        then have pv: "parseValue (Suc n) (skipWs r2) = parseValue n (skipWs r2)"
          using V by blast
        show ?thesis
        proof (cases "parseValue n (skipWs r2)")
          case None
          show ?thesis unfolding Cons l r
            by (simp only: Some a option.case prod.case sk list.case pv None)
        next
          case v: (Some a')
          obtain x r3 where a': "a' = (x, r3)" by (cases a')
          have l3: "length r3 < length (skipWs r2)" using parse_rest v a' by blast
          show ?thesis
          proof (cases "skipWs r3")
            case Nil
            show ?thesis unfolding Cons l r
              by (simp only: Some a option.case prod.case sk list.case pv v a' Nil)
          next
            case sk2: (Cons d r4)
            have "length (skipWs r4) < length r3"
              using skipWs_Cons[OF sk2] skipWs_length[of r4] by simp
            then have "2 * length (skipWs r4) + 3 \<le> n" using l1 l2 l3 b Cons by simp
            then have f: "parseMembers (Suc n) (skipWs r4) = parseMembers n (skipWs r4)"
              using M by blast
            show ?thesis unfolding Cons l r
              by (simp only: Some a option.case prod.case sk list.case pv v a' sk2 f)
          qed
        qed
      qed
    qed
  qed
  show ?case using v e m by blast
qed

lemma parseValue_fuel:
  "2 * length s + 2 \<le> n \<Longrightarrow> parseValue (n + k) s = parseValue n s"
proof (induction k)
  case 0
  then show ?case by simp
next
  case (Suc k)
  have "2 * length s + 2 \<le> n + k" using Suc.prems by simp
  then have "parseValue (Suc (n + k)) s = parseValue (n + k) s"
    using parse_fuel_step by blast
  then show ?case using Suc by simp
qed

lemma JSON_parse_fuel:
  "JSON_parse s =
     (case parseValue (2 * length s + 2 + k) (skipWs s) of
        None \<Rightarrow> None
      | Some (v, rest) \<Rightarrow> if skipWs rest = [] then Some v else None)"
proof -
  have "2 * length (skipWs s) + 2 \<le> 2 * length s + 2" using skipWs_length[of s] by simp
  then have "parseValue (2 * length s + 2 + k) (skipWs s) = parseValue (2 * length s + 2) (skipWs s)"
    by (rule parseValue_fuel)
  then show ?thesis by (simp add: JSON_parse_def)
qed

section \<open>Claims about the Header Resolver and the Patch Engine\<close>

text \<open>
  C7. The target \<open>Summary:\<close> is normalized to \<open>summary\<close>. In the document \<open>docSummary\<close>,
  whose line 2 is the header \<open>summary\<close> written between double quotes behind two \<open>#\<close>, the
  resolver returns index 2 with level 2, and it is the first loop, the pass over header
  lines, that returns it. In \<open>docLongLine\<close> the same header is line 1 behind a line of 107
  characters that contains the word: the resolver still returns the header, index 1, where
  the last pass alone would stop at line 0. In general, for every list of lines in which a
  line made of \<open>n > 0\<close> markers \<open>#\<close>, a blank and the quoted word comes after lines that the
  first loop does not match, the resolver returns the index of that line with level \<open>n\<close>,
  the number of its markers: case, the quotes around the header and the colon of the target
  do not prevent the match.
\<close>

theorem resolver_matches_quoted_summary:
  "normalizeText asciiLowerCase (js ''Summary:'') = js ''summary'' \<and>
   split_nl docSummary ! 2 = quotedSummaryLine \<and>
   quotedSummaryLine = quotedSummaryHeader 2 \<and>
   findHeaderLineIndex asciiLowerCase (split_nl docSummary) (js ''Summary:'') =
     \<lparr>index = 2, level = 2\<rparr> \<and>
   scanHeaders asciiLowerCase (js ''summary'') 0 (split_nl docSummary) =
     Some \<lparr>index = 2, level = 2\<rparr> \<and>
   split_nl docLongLine ! 1 = quotedSummaryLine \<and>
   findHeaderLineIndex asciiLowerCase (split_nl docLongLine) (js ''Summary:'') =
     \<lparr>index = 1, level = 2\<rparr> \<and>
   scanAnyLine asciiLowerCase (js ''summary'') 0 (split_nl docLongLine) =
     Some \<lparr>index = 0, level = 2\<rparr> \<and>
   (\<forall>n pre post.
      0 < n \<longrightarrow> scanHeaders asciiLowerCase (js ''summary'') 0 pre = None \<longrightarrow>
      scanHeaders asciiLowerCase (js ''summary'') 0 (pre @ quotedSummaryHeader n # post) =
        Some \<lparr>index = int (length pre), level = n\<rparr> \<and>
      findHeaderLineIndex asciiLowerCase (pre @ quotedSummaryHeader n # post) (js ''Summary:'') =
        \<lparr>index = int (length pre), level = n\<rparr>)"
proof -
  have gen: "scanHeaders asciiLowerCase (js ''summary'') 0 (pre @ quotedSummaryHeader n # post) =
        Some \<lparr>index = int (length pre), level = n\<rparr>"
    if "0 < n" "scanHeaders asciiLowerCase (js ''summary'') 0 pre = None" for n pre post
  proof -
    have "scanHeaders asciiLowerCase (js ''summary'') 0 (pre @ quotedSummaryHeader n # post) =
        scanHeaders asciiLowerCase (js ''summary'') (0 + length pre) (quotedSummaryHeader n # post)"
      by (rule scanHeaders_append[OF that(2)])
    also have "\<dots> = Some \<lparr>index = int (0 + length pre), level = n\<rparr>"
      by (rule scanHeaders_quotedSummaryHeader[OF that(1)])
    finally show ?thesis by (simp only: add_0)
  qed
  have find: "findHeaderLineIndex asciiLowerCase ls (js ''Summary:'') = loc"
    if "scanHeaders asciiLowerCase (js ''summary'') 0 ls = Some loc" for ls loc
    using that by (simp add: findHeaderLineIndex_def normalize_Summary js_nonempty2)
  have pre1: "scanHeaders asciiLowerCase (js ''summary'') 0 [js ''# Notes'', []] = None"
    by (simp add: trim_Notes classify_Notes no_match_Notes js_nonempty2 trim_empty)
  have s1: "scanHeaders asciiLowerCase (js ''summary'') 0 (split_nl docSummary) =
     Some \<lparr>index = 2, level = 2\<rparr>"
    using gen[of 2 "[js ''# Notes'', []]" "[js ''body'']", OF _ pre1]
    by (simp add: split_docSummary quotedSummaryHeader_two)
  have s2: "scanHeaders asciiLowerCase (js ''summary'') 0 (split_nl docLongLine) =
     Some \<lparr>index = 1, level = 2\<rparr>"
    using gen[of 2 "[longSummaryLine]" "[js ''body'']", OF _ scanHeaders_longSummaryLine]
    by (simp add: split_docLongLine quotedSummaryHeader_two)
  have c2: "split_nl docSummary ! 2 = quotedSummaryLine"
    by (simp add: split_docSummary)
  have c6: "split_nl docLongLine ! 1 = quotedSummaryLine"
    by (simp add: split_docLongLine)
  have c8: "scanAnyLine asciiLowerCase (js ''summary'') 0 (split_nl docLongLine) =
     Some \<lparr>index = 0, level = 2\<rparr>"
    by (simp only: split_docLongLine scanAnyLine_longSummaryLine of_nat_0)
  have c9: "\<forall>n pre post.
      0 < n \<longrightarrow> scanHeaders asciiLowerCase (js ''summary'') 0 pre = None \<longrightarrow>
      scanHeaders asciiLowerCase (js ''summary'') 0 (pre @ quotedSummaryHeader n # post) =
        Some \<lparr>index = int (length pre), level = n\<rparr> \<and>
      findHeaderLineIndex asciiLowerCase (pre @ quotedSummaryHeader n # post) (js ''Summary:'') =
        \<lparr>index = int (length pre), level = n\<rparr>"
  proof (intro allI impI conjI)
    fix n :: nat and pre post :: "jsstring list"
    assume a: "0 < n" and b: "scanHeaders asciiLowerCase (js ''summary'') 0 pre = None"
    show "scanHeaders asciiLowerCase (js ''summary'') 0 (pre @ quotedSummaryHeader n # post) =
        Some \<lparr>index = int (length pre), level = n\<rparr>"
      by (rule gen[OF a b])
    show "findHeaderLineIndex asciiLowerCase (pre @ quotedSummaryHeader n # post)
        (js ''Summary:'') = \<lparr>index = int (length pre), level = n\<rparr>"
      by (rule find[OF gen[OF a b]])
  qed
  show ?thesis
    by (intro conjI)
      (rule normalize_Summary, rule c2, rule quotedSummaryHeader_two[symmetric],
        rule find[OF s1], rule s1, rule c6, rule find[OF s2], rule c8, rule c9)
qed

text \<open>
  The statement at three markers behind the long line: the first loop matches nothing on
  the long line, the last pass alone would return index 0 with its fixed level 2, and the
  resolver returns index 1 with level 3.
\<close>

theorem resolver_matches_quoted_summary_witness:
  "0 < (3::nat) \<and>
   scanHeaders asciiLowerCase (js ''summary'') 0 [longSummaryLine] = None \<and>
   scanAnyLine asciiLowerCase (js ''summary'') 0
     ([longSummaryLine] @ quotedSummaryHeader 3 # [js ''body'']) =
     Some \<lparr>index = 0, level = 2\<rparr> \<and>
   findHeaderLineIndex asciiLowerCase
     ([longSummaryLine] @ quotedSummaryHeader 3 # [js ''body'']) (js ''Summary:'') =
     \<lparr>index = 1, level = 3\<rparr>"
proof -
  have h: "scanHeaders asciiLowerCase (js ''summary'') 0 [longSummaryLine] = None"
    by (simp add: trim_longSummaryLine classify_longSummaryLine longSummaryLine_nonempty)
  have g: "findHeaderLineIndex asciiLowerCase (pre @ quotedSummaryHeader n # post)
       (js ''Summary:'') = \<lparr>index = int (length pre), level = n\<rparr>"
    if "0 < n" "scanHeaders asciiLowerCase (js ''summary'') 0 pre = None" for n pre post
    using resolver_matches_quoted_summary that by blast
  have three: "0 < (3::nat)" by simp
  from g[OF three h, of "[js ''body'']"] show ?thesis
    using h
    by (simp add: trim_longSummaryLine lower_longSummaryLine includes_longSummaryLine
        longSummaryLine_nonempty)
qed

text \<open>
  C1. The directive \<open>search_and_replace\<close> with \<open>all\<close> false passes the escaped search
  string to a replacement by string pattern. For the document \<open>a.b\<close> and \<open>find = .\<close> the
  document contains \<open>find\<close>, so no warning is recorded, but the text searched for is
  \<open>\.\<close>: nothing is replaced. With \<open>all\<close> true the same directive gives \<open>aXb\<close>.
\<close>

theorem search_replace_first_misses_escaped_text:
  "applyNotepadModifications asciiLowerCase (js ''a.b'') [SearchReplace (js ''.'') (js ''X'') False]
     = \<lparr>newContent = js ''a.b'', errors = []\<rparr> \<and>
   includesStr (js ''a.b'') (js ''.'') \<and>
   applyNotepadModifications asciiLowerCase (js ''a.b'') [SearchReplace (js ''.'') (js ''X'') True]
     = \<lparr>newContent = js ''aXb'', errors = []\<rparr>"
  by (simp add: applyNotepadModifications_def applyModification_def SearchReplace_def
      searchAndReplace_def replaceFirst_def replaceAllRegExp_def escapeRegExp_def
      isRegExpSpecial_def startsWith_def js_def)

text \<open>
  C3, as stated, fails: \<open>replace_all\<close> stores its content as it is, here a text with three
  empty lines between \<open>a\<close> and \<open>b\<close>.
\<close>

theorem replace_all_keeps_blank_lines:
  "threeBlankLines (split_nl (newContent (applyNotepadModifications asciiLowerCase (js ''q'')
      [ReplaceAll (js ''a'' @ [NL, NL, NL, NL] @ js ''b'')])))"
  by (simp add: applyNotepadModifications_def applyModification_def ReplaceAll_def js_def NL_def
      char_defs)

text \<open>
  C3, amended. When the last directive is a \<open>replace_section\<close> or an
  \<open>append_to_section\<close> whose header the resolver finds, the returned document contains no
  run of three newline characters.
\<close>

theorem section_edit_leaves_no_newline_run:
  assumes "action m = js ''replace_section'' \<or> action m = js ''append_to_section''"
    and "index (findHeaderLineIndex lower
           (split_nl (newContent (applyNotepadModifications lower doc ms))) (header m)) \<noteq> - 1"
  shows "\<not> includesStr (newContent (applyNotepadModifications lower doc (ms @ [m]))) [NL, NL, NL]"
  using assms
  by (auto simp: applyNotepadModifications_snoc applyModification_replace_section
      applyModification_append_to_section replaceSection_found_no_triple
      appendToSection_found_no_triple)

theorem section_edit_leaves_no_newline_run_witness:
  "(action (ReplaceSection (js ''A'') (js ''new'')) = js ''replace_section'' \<or>
    action (ReplaceSection (js ''A'') (js ''new'')) = js ''append_to_section'') \<and>
   index (findHeaderLineIndex asciiLowerCase
        (split_nl (newContent (applyNotepadModifications asciiLowerCase docABblank [])))
        (header (ReplaceSection (js ''A'') (js ''new'')))) \<noteq> - 1 \<and>
   includesStr docABblank [NL, NL, NL] \<and>
   \<not> includesStr (newContent (applyNotepadModifications asciiLowerCase docABblank
        ([] @ [ReplaceSection (js ''A'') (js ''new'')]))) [NL, NL, NL]"
proof -
  have a: "action (ReplaceSection (js ''A'') (js ''new'')) = js ''replace_section'' \<or>
    action (ReplaceSection (js ''A'') (js ''new'')) = js ''append_to_section''"
    by (simp add: ReplaceSection_def)
  have b: "index (findHeaderLineIndex asciiLowerCase
        (split_nl (newContent (applyNotepadModifications asciiLowerCase docABblank [])))
        (header (ReplaceSection (js ''A'') (js ''new'')))) \<noteq> - 1"
    by (simp add: applyNotepadModifications_def ReplaceSection_def split_docABblank find_header_A)
  have c: "includesStr docABblank [NL, NL, NL]"
    by (simp add: docABblank_def js_def NL_def startsWith_def)
  show ?thesis
    using a b c section_edit_leaves_no_newline_run[OF a b] by blast
qed

text \<open>
  C2, as stated, fails: the blank-run collapse after a section replacement runs over the
  whole document. In \<open>docABblank\<close> the lines from \<open>## B\<close> to the end hold two empty lines
  in a row; after replacing section A only one of them is left.
\<close>

theorem replace_section_collapses_later_section:
  "split_nl docABblank ! 0 = js ''## A'' \<and> split_nl docABblank ! 2 = js ''## B'' \<and>
   findHeaderLineIndex asciiLowerCase (split_nl docABblank) (js ''A'') = \<lparr>index = 0, level = 2\<rparr> \<and>
   \<not> suffix (drop 2 (split_nl docABblank))
     (split_nl (newContent (applyNotepadModifications asciiLowerCase docABblank
        [ReplaceSection (js ''A'') (js ''new'')])))"
  unfolding replace_A_docABblank split_docABblank find_header_A
  by (simp add: js_def NL_def suffix_Cons)

text \<open>
  C2, amended. Let the resolver locate the target of a \<open>replace_section\<close> at line \<open>i\<close>
  with level \<open>lvl\<close>, and let line \<open>j\<close>, after line \<open>i\<close>, be a header of level at most
  \<open>lvl\<close> (for \<open>## A\<close> and \<open>## B\<close>: both of level 2). If the text from line \<open>j\<close> to the end
  has no run of three newlines, the lines from \<open>j\<close> to the end are the last lines of the
  returned document, unchanged.
\<close>

theorem replace_section_keeps_later_section:
  assumes act: "action m = js ''replace_section''"
    and loc: "findHeaderLineIndex lower (split_nl doc) (header m) = \<lparr>index = int i, level = lvl\<rparr>"
    and ij: "i < j" and jlen: "j < length (split_nl doc)"
    and hdr: "sectionHeaderLevel (split_nl doc ! j) = Some k" and klvl: "k \<le> lvl"
    and norun: "\<not> includesStr (join_nl (drop j (split_nl doc))) [NL, NL, NL]"
  shows "suffix (drop j (split_nl doc))
           (split_nl (newContent (applyNotepadModifications lower doc [m])))"
proof -
  let ?st = "\<lparr>newContent = doc, errors = []\<rparr>"
  have "applyNotepadModifications lower doc [m] = replaceSection lower 1 ?st m"
    using act by (simp add: applyNotepadModifications_def applyModification_replace_section)
  moreover obtain q where "newContent (replaceSection lower 1 ?st m) =
      q @ NL # collapseBlankRuns (join_nl (drop j (split_nl doc)))"
    using replaceSection_tail[of lower ?st m i lvl j k 1] loc ij jlen hdr klvl by auto
  ultimately have "newContent (applyNotepadModifications lower doc [m]) =
      q @ NL # join_nl (drop j (split_nl doc))"
    using collapseBlankRuns_id[OF norun] by simp
  moreover have "split_nl (join_nl (drop j (split_nl doc))) = drop j (split_nl doc)"
  proof (rule split_join)
    show "drop j (split_nl doc) \<noteq> []" using jlen by simp
    show "\<forall>l\<in>set (drop j (split_nl doc)). NL \<notin> set l"
      using split_nl_no_NL in_set_dropD by fast
  qed
  ultimately have "split_nl (newContent (applyNotepadModifications lower doc [m])) =
      split_nl q @ drop j (split_nl doc)"
    by (simp add: split_nl_append)
  then show ?thesis by (simp add: suffix_def)
qed

theorem replace_section_keeps_later_section_witness:
  "action (ReplaceSection (js ''A'') (js ''new'')) = js ''replace_section'' \<and>
   findHeaderLineIndex asciiLowerCase (split_nl docAB)
     (header (ReplaceSection (js ''A'') (js ''new''))) = \<lparr>index = int 0, level = 2\<rparr> \<and>
   (0::nat) < 2 \<and> 2 < length (split_nl docAB) \<and>
   sectionHeaderLevel (split_nl docAB ! 2) = Some 2 \<and> (2::nat) \<le> 2 \<and>
   \<not> includesStr (join_nl (drop 2 (split_nl docAB))) [NL, NL, NL] \<and>
   suffix (drop 2 (split_nl docAB))
     (split_nl (newContent (applyNotepadModifications asciiLowerCase docAB
        [ReplaceSection (js ''A'') (js ''new'')])))"
proof -
  have act: "action (ReplaceSection (js ''A'') (js ''new'')) = js ''replace_section''"
    by (simp add: ReplaceSection_def)
  have loc: "findHeaderLineIndex asciiLowerCase (split_nl docAB)
     (header (ReplaceSection (js ''A'') (js ''new''))) = \<lparr>index = int 0, level = 2\<rparr>"
    by (simp add: ReplaceSection_def split_docAB find_header_A)
  have ij: "(0::nat) < 2" by simp
  have jlen: "2 < length (split_nl docAB)" by (simp add: split_docAB)
  have hdr: "sectionHeaderLevel (split_nl docAB ! 2) = Some 2"
    by (simp add: split_docAB section_level_B)
  have klvl: "(2::nat) \<le> 2" by simp
  have norun: "\<not> includesStr (join_nl (drop 2 (split_nl docAB))) [NL, NL, NL]"
    unfolding split_docAB by (simp add: js_def NL_def startsWith_def)
  show ?thesis
    using act loc jlen hdr norun
      replace_section_keeps_later_section[OF act loc ij jlen hdr klvl norun]
    by simp
qed

section \<open>Claims about the Step Executor\<close>

text \<open>
  C9. Outside the OpenAI-compatible path and for a model that supports a thinking
  configuration: a budget of 0 gives no configuration; the budget \<open>- 1\<close> (automatic) gives
  the named thinking level when the model is the one with leveled reasoning, and the fixed
  budget 1024 otherwise; any other budget is passed on unchanged.
\<close>

theorem thinking_config_derivation:
  assumes "\<not> useOpenAiApiConfig cfg" and "supportsThinkingConfig m = Some True"
  shows "getThinkingConfigForGeminiModel cfg m 0 lvl = None \<and>
    (apiName m = GEMINI_3_PRO_MODEL_ID cfg \<longrightarrow>
       getThinkingConfigForGeminiModel cfg m (- 1) lvl =
         Some \<lparr>thinkingBudget = None, thinkingLevel = Some lvl\<rparr>) \<and>
    (apiName m \<noteq> GEMINI_3_PRO_MODEL_ID cfg \<longrightarrow>
       getThinkingConfigForGeminiModel cfg m (- 1) lvl =
         Some \<lparr>thinkingBudget = Some 1024, thinkingLevel = None\<rparr>) \<and>
    (budget \<noteq> 0 \<and> budget \<noteq> - 1 \<longrightarrow>
       getThinkingConfigForGeminiModel cfg m budget lvl =
         Some \<lparr>thinkingBudget = Some budget, thinkingLevel = None\<rparr>)"
  using assms by (simp add: getThinkingConfigForGeminiModel_def)

theorem thinking_config_derivation_witness:
  "\<not> useOpenAiApiConfig sampleConfig \<and>
   supportsThinkingConfig sampleModel = Some True \<and>
   supportsThinkingConfig sampleProModel = Some True \<and>
   apiName sampleProModel = GEMINI_3_PRO_MODEL_ID sampleConfig \<and>
   apiName sampleModel \<noteq> GEMINI_3_PRO_MODEL_ID sampleConfig \<and>
   getThinkingConfigForGeminiModel sampleConfig sampleModel 0 HIGH = None \<and>
   getThinkingConfigForGeminiModel sampleConfig sampleProModel (- 1) HIGH =
     Some \<lparr>thinkingBudget = None, thinkingLevel = Some HIGH\<rparr> \<and>
   getThinkingConfigForGeminiModel sampleConfig sampleModel (- 1) HIGH =
     Some \<lparr>thinkingBudget = Some 1024, thinkingLevel = None\<rparr> \<and>
   getThinkingConfigForGeminiModel sampleConfig sampleModel 8192 HIGH =
     Some \<lparr>thinkingBudget = Some 8192, thinkingLevel = None\<rparr>"
proof -
  have a: "\<not> useOpenAiApiConfig sampleConfig" by (simp add: sampleConfig_def)
  have b: "supportsThinkingConfig sampleModel = Some True" by (simp add: sampleModel_def)
  have b': "supportsThinkingConfig sampleProModel = Some True" by (simp add: sampleProModel_def)
  have p: "apiName sampleProModel = GEMINI_3_PRO_MODEL_ID sampleConfig"
    by (simp add: sampleProModel_def sampleConfig_def)
  have q: "apiName sampleModel \<noteq> GEMINI_3_PRO_MODEL_ID sampleConfig"
    by (simp add: sampleModel_def sampleConfig_def js_def)
  have r: "(8192::int) \<noteq> 0 \<and> (8192::int) \<noteq> - 1" by simp
  show ?thesis
    using a b b' p q r
      thinking_config_derivation[OF a b, of HIGH 8192]
      thinking_config_derivation[OF a b', of HIGH 8192]
    by simp
qed

text \<open>
  C8. With two additional attempts allowed, no cancellation, a first and a second attempt
  that fail and a third that succeeds, \<open>executeStep\<close> returns the parsed response of the
  third attempt. Its effects are, in order: a fresh placeholder message and a transport
  call for each of the three attempts, after the first failure a retry notice and a delay
  of one base delay, after the second a retry notice and a delay of two base delays, and
  the final update of the third placeholder.
\<close>

theorem retry_twice_then_success:
  assumes max: "MAX_AUTO_RETRIES cfg = 2"
    and c0: "\<not> cancelledAtStart (env 0)" "\<not> cancelledAfterCall (env 0)"
    and c1: "\<not> cancelledAtStart (env 1)" "\<not> cancelledAfterCall (env 1)"
    and c2: "\<not> cancelledAtStart (env 2)" "\<not> cancelledAfterCall (env 2)"
    and f0: "failureOf (env 0) = Some e0" "errorName e0 \<noteq> js ''AbortError''"
    and f1: "failureOf (env 1) = Some e1" "errorName e1 \<noteq> js ''AbortError''"
    and ok: "outcome (env 2) = Returned r" "failureOf (env 2) = None"
  shows "executeStep cfg req env w =
     (Inr (Some (parseAIResponse (responseText r))),
      \<lparr>nextMessageId = nextMessageId w + 5,
       effects = effects w @
         attemptStart cfg req (nextMessageId w) (env 0) @
         [AddMessage (nextMessageId w + 1) (retryNotice (errorMessage e0)) System SystemNotification,
          Delay (RETRY_DELAY_BASE_MS cfg * 1)] @
         attemptStart cfg req (nextMessageId w + 2) (env 1) @
         [AddMessage (nextMessageId w + 3) (retryNotice (errorMessage e1)) System SystemNotification,
          Delay (RETRY_DELAY_BASE_MS cfg * 2)] @
         attemptStart cfg req (nextMessageId w + 4) (env 2) @
         [SetGlobalApiKeyStatus,
          UpdateMessage (nextMessageId w + 4)
            \<lparr>updText = Some (spokenText (parseAIResponse (responseText r))),
             updThoughts = responseThoughts r, updDurationMs = Some (durationMs r)\<rparr>]\<rparr>)"
proof -
  have k0: "(0::nat) < MAX_AUTO_RETRIES cfg" and k1: "(1::nat) < MAX_AUTO_RETRIES cfg"
    and k2: "(2::nat) \<le> MAX_AUTO_RETRIES cfg"
    using max by simp_all
  have s0: "executeLoop cfg req env 0 w' =
     executeLoop cfg req env 1
       \<lparr>nextMessageId = nextMessageId w' + 2,
        effects = effects w' @ attemptStart cfg req (nextMessageId w') (env 0) @
          [AddMessage (nextMessageId w' + 1) (retryNotice (errorMessage e0)) System SystemNotification,
           Delay (RETRY_DELAY_BASE_MS cfg * 1)]\<rparr>" for w'
    using executeLoop_retry[where k = 0 and env = env and cfg = cfg and e = e0 and w = w' and req = req]
      k0 c0 f0 by simp
  have s1: "executeLoop cfg req env 1 w' =
     executeLoop cfg req env 2
       \<lparr>nextMessageId = nextMessageId w' + 2,
        effects = effects w' @ attemptStart cfg req (nextMessageId w') (env 1) @
          [AddMessage (nextMessageId w' + 1) (retryNotice (errorMessage e1)) System SystemNotification,
           Delay (RETRY_DELAY_BASE_MS cfg * 2)]\<rparr>" for w'
    using executeLoop_retry[where k = 1 and env = env and cfg = cfg and e = e1 and w = w' and req = req]
      k1 c1 f1 by (simp add: numeral_2_eq_2)
  have s2: "executeLoop cfg req env 2 w' =
     (Inr (Some (parseAIResponse (responseText r))),
       \<lparr>nextMessageId = nextMessageId w' + 1,
        effects = effects w' @ attemptStart cfg req (nextMessageId w') (env 2) @
          [SetGlobalApiKeyStatus,
           UpdateMessage (nextMessageId w')
             \<lparr>updText = Some (spokenText (parseAIResponse (responseText r))),
              updThoughts = responseThoughts r, updDurationMs = Some (durationMs r)\<rparr>]\<rparr>)" for w'
    using executeLoop_success[where k = 2 and env = env and cfg = cfg and r = r and w = w' and req = req]
      k2 c2 ok by (simp add: numeral_2_eq_2)
  show ?thesis
    unfolding executeStep_def s0 s1 s2 by (simp add: eval_nat_numeral)
qed

theorem retry_twice_then_success_witness:
  "MAX_AUTO_RETRIES sampleConfig = 2 \<and>
   \<not> cancelledAtStart (failTwiceThenSucceed 0) \<and> \<not> cancelledAfterCall (failTwiceThenSucceed 0) \<and>
   \<not> cancelledAtStart (failTwiceThenSucceed 1) \<and> \<not> cancelledAfterCall (failTwiceThenSucceed 1) \<and>
   \<not> cancelledAtStart (failTwiceThenSucceed 2) \<and> \<not> cancelledAfterCall (failTwiceThenSucceed 2) \<and>
   failureOf (failTwiceThenSucceed 0) =
     Some \<lparr>errorName = js ''Error'', errorMessage = js ''overloaded''\<rparr> \<and>
   failureOf (failTwiceThenSucceed 1) =
     Some \<lparr>errorName = js ''Error'', errorMessage = js ''overloaded''\<rparr> \<and>
   failureOf (failTwiceThenSucceed 2) = None \<and>
   executeStep sampleConfig sampleRequest failTwiceThenSucceed emptyWorld =
     (Inr (Some (parseAIResponse (js ''ok''))),
      \<lparr>nextMessageId = 5,
       effects =
         [AddMessage 0 [] Cognito CognitoToMuse,
          CallTransport (transportRequest sampleConfig sampleRequest),
          AddMessage 1 (retryNotice (js ''overloaded'')) System SystemNotification,
          Delay 1000,
          AddMessage 2 [] Cognito CognitoToMuse,
          CallTransport (transportRequest sampleConfig sampleRequest),
          AddMessage 3 (retryNotice (js ''overloaded'')) System SystemNotification,
          Delay 2000,
          AddMessage 4 [] Cognito CognitoToMuse,
          CallTransport (transportRequest sampleConfig sampleRequest),
          UpdateMessage 4 \<lparr>updText = Some (js ''ok''), updThoughts = Some [], updDurationMs = None\<rparr>,
          SetGlobalApiKeyStatus,
          UpdateMessage 4
            \<lparr>updText = Some (spokenText (parseAIResponse (js ''ok''))),
             updThoughts = None, updDurationMs = Some 5\<rparr>]\<rparr>)"
proof -
  let ?e = "\<lparr>errorName = js ''Error'', errorMessage = js ''overloaded''\<rparr>"
  have max: "MAX_AUTO_RETRIES sampleConfig = 2" by (simp add: sampleConfig_def)
  have c0: "\<not> cancelledAtStart (failTwiceThenSucceed 0)" "\<not> cancelledAfterCall (failTwiceThenSucceed 0)"
    by (simp_all add: failTwiceThenSucceed_def failedAttempt_def)
  have c1: "\<not> cancelledAtStart (failTwiceThenSucceed 1)" "\<not> cancelledAfterCall (failTwiceThenSucceed 1)"
    by (simp_all add: failTwiceThenSucceed_def failedAttempt_def)
  have c2: "\<not> cancelledAtStart (failTwiceThenSucceed 2)" "\<not> cancelledAfterCall (failTwiceThenSucceed 2)"
    by (simp_all add: failTwiceThenSucceed_def okAttempt_def)
  have f0: "failureOf (failTwiceThenSucceed 0) = Some ?e"
    by (simp add: failTwiceThenSucceed_def failureOf_failedAttempt)
  have f1: "failureOf (failTwiceThenSucceed 1) = Some ?e"
    by (simp add: failTwiceThenSucceed_def failureOf_failedAttempt)
  have n: "errorName ?e \<noteq> js ''AbortError''" by (simp add: Error_not_AbortError)
  have ok: "outcome (failTwiceThenSucceed 2) =
      Returned \<lparr>responseText = js ''ok'', responseThoughts = None, durationMs = 5,
                responseError = None\<rparr>"
    by (simp add: failTwiceThenSucceed_def okAttempt_def)
  have f2: "failureOf (failTwiceThenSucceed 2) = None"
    by (simp add: failTwiceThenSucceed_def failureOf_okAttempt)
  have chunks0: "chunks (failTwiceThenSucceed 0) = []" "chunks (failTwiceThenSucceed (Suc 0)) = []"
    by (simp_all add: failTwiceThenSucceed_def failedAttempt_def)
  have chunks2: "chunks (failTwiceThenSucceed 2) = [\<lparr>chunkText = Some (js ''ok''), chunkThoughts = None\<rparr>]"
    by (simp add: failTwiceThenSucceed_def okAttempt_def)
  have ne: "js ''ok'' \<noteq> []" by (simp add: js_def)
  have base: "RETRY_DELAY_BASE_MS sampleConfig = 1000" by (simp add: sampleConfig_def)
  have req: "senderForStep sampleRequest = Cognito" "purposeForStep sampleRequest = CognitoToMuse"
    by (simp_all add: sampleRequest_def)
  show ?thesis
    using max c0 c1 c2 f0 f1 f2
      retry_twice_then_success[OF max c0 c1 c2 f0 n f1 n ok f2, of sampleRequest emptyWorld]
    by (simp add: attemptStart_def streamUpdates_def chunks0 chunks2 emit_def ne base req
        emptyWorld_def)
qed

text \<open>
  C5. On the managed-provider transport, let the abort signal fire after the first chunk of
  every attempt while \<open>cancelRequestRef.current\<close> stays false. \<open>generateResponse\<close> returns
  the error \<open>AbortError\<close>, and the \<open>try\<close> block of \<open>executeStep\<close> throws the cancellation
  error; but the \<open>catch\<close> block recognises a cancellation only by the flag or by the name
  \<open>AbortError\<close>, and the error thrown is named \<open>Error\<close>. So the attempt is retried: three
  transport calls are made, two retry notices are shown, and after the last attempt a
  failure snapshot is recorded.
\<close>

theorem abort_result_is_retried:
  "executeStep sampleConfig sampleRequest (\<lambda>k. abortedAttempt) emptyWorld =
     (Inl cancelledError,
      \<lparr>nextMessageId = 6,
       effects =
         [AddMessage 0 [] Cognito CognitoToMuse,
          CallTransport (transportRequest sampleConfig sampleRequest),
          UpdateMessage 0 \<lparr>updText = Some (js ''Hel''), updThoughts = Some [], updDurationMs = None\<rparr>,
          AddMessage 1 (retryNotice cancelMessage) System SystemNotification,
          Delay 1000,
          AddMessage 2 [] Cognito CognitoToMuse,
          CallTransport (transportRequest sampleConfig sampleRequest),
          UpdateMessage 2 \<lparr>updText = Some (js ''Hel''), updThoughts = Some [], updDurationMs = None\<rparr>,
          AddMessage 3 (retryNotice cancelMessage) System SystemNotification,
          Delay 2000,
          AddMessage 4 [] Cognito CognitoToMuse,
          CallTransport (transportRequest sampleConfig sampleRequest),
          UpdateMessage 4 \<lparr>updText = Some (js ''Hel''), updThoughts = Some [], updDurationMs = None\<rparr>,
          AddMessage 5 (failureNotice cancelMessage) System SystemNotification,
          SetFailedStepInfo (failedStepPayload sampleConfig sampleRequest 5),
          SetIsInternalDiscussionActive False]\<rparr>) \<and>
   outcome abortedAttempt =
     Returned (fst (generateResponse (Some (js ''key'')) abortedMidStream StreamDone 7)) \<and>
   responseError (fst (generateResponse (Some (js ''key'')) abortedMidStream StreamDone 7)) =
     Some (js ''AbortError'') \<and>
   \<not> cancelledAtStart abortedAttempt \<and> \<not> cancelledAfterCall abortedAttempt"
proof -
  let ?env = "\<lambda>k::nat. abortedAttempt"
  have c: "\<not> cancelledAtStart (?env k)" "\<not> cancelledAfterCall (?env k)" for k
    by (simp_all add: abortedAttempt_eq)
  have f: "failureOf (?env k) = Some cancelledError" for k
    by (simp add: failureOf_abortedAttempt)
  have n: "errorName cancelledError \<noteq> js ''AbortError''"
    by (simp add: cancelledError_def Error_not_AbortError)
  have m: "errorMessage cancelledError = cancelMessage" by (simp add: cancelledError_def)
  have ch: "chunks abortedAttempt = [\<lparr>chunkText = Some (js ''Hel''), chunkThoughts = Some []\<rparr>]"
    by (simp add: abortedAttempt_eq)
  have ne: "js ''Hel'' \<noteq> []" by (simp add: js_def)
  have cfg: "MAX_AUTO_RETRIES sampleConfig = 2" "RETRY_DELAY_BASE_MS sampleConfig = 1000"
    by (simp_all add: sampleConfig_def)
  have req: "senderForStep sampleRequest = Cognito" "purposeForStep sampleRequest = CognitoToMuse"
    by (simp_all add: sampleRequest_def)
  have s0: "executeLoop sampleConfig sampleRequest ?env 0 w =
     executeLoop sampleConfig sampleRequest ?env 1
       \<lparr>nextMessageId = nextMessageId w + 2,
        effects = effects w @ attemptStart sampleConfig sampleRequest (nextMessageId w) abortedAttempt @
          [AddMessage (nextMessageId w + 1) (retryNotice cancelMessage) System SystemNotification,
           Delay 1000]\<rparr>" for w
    using executeLoop_retry[where k = 0 and env = ?env and cfg = sampleConfig
        and e = cancelledError and w = w and req = sampleRequest] c f n
    by (simp add: cfg m)
  have s1: "executeLoop sampleConfig sampleRequest ?env 1 w =
     executeLoop sampleConfig sampleRequest ?env 2
       \<lparr>nextMessageId = nextMessageId w + 2,
        effects = effects w @ attemptStart sampleConfig sampleRequest (nextMessageId w) abortedAttempt @
          [AddMessage (nextMessageId w + 1) (retryNotice cancelMessage) System SystemNotification,
           Delay 2000]\<rparr>" for w
    using executeLoop_retry[where k = 1 and env = ?env and cfg = sampleConfig
        and e = cancelledError and w = w and req = sampleRequest] c f n
    by (simp add: cfg m numeral_2_eq_2)
  have s2: "executeLoop sampleConfig sampleRequest ?env 2 w =
     (Inl cancelledError,
       \<lparr>nextMessageId = nextMessageId w + 2,
        effects = effects w @ attemptStart sampleConfig sampleRequest (nextMessageId w) abortedAttempt @
          [AddMessage (nextMessageId w + 1) (failureNotice cancelMessage) System SystemNotification,
           SetFailedStepInfo (failedStepPayload sampleConfig sampleRequest (nextMessageId w + 1)),
           SetIsInternalDiscussionActive False]\<rparr>)" for w
    using executeLoop_exhausted[where k = 2 and env = ?env and cfg = sampleConfig
        and e = cancelledError and w = w and req = sampleRequest] c f n
    by (simp add: cfg m)
  have five: "Suc (Suc (Suc (Suc (Suc 0)))) = 5" by simp
  have two: "Suc (Suc 0) = 2" and four: "Suc (Suc (Suc (Suc 0))) = 4" by simp_all
  have run: "executeStep sampleConfig sampleRequest ?env emptyWorld =
     (Inl cancelledError,
      \<lparr>nextMessageId = 6,
       effects =
         [AddMessage 0 [] Cognito CognitoToMuse,
          CallTransport (transportRequest sampleConfig sampleRequest),
          UpdateMessage 0 \<lparr>updText = Some (js ''Hel''), updThoughts = Some [], updDurationMs = None\<rparr>,
          AddMessage 1 (retryNotice cancelMessage) System SystemNotification,
          Delay 1000,
          AddMessage 2 [] Cognito CognitoToMuse,
          CallTransport (transportRequest sampleConfig sampleRequest),
          UpdateMessage 2 \<lparr>updText = Some (js ''Hel''), updThoughts = Some [], updDurationMs = None\<rparr>,
          AddMessage 3 (retryNotice cancelMessage) System SystemNotification,
          Delay 2000,
          AddMessage 4 [] Cognito CognitoToMuse,
          CallTransport (transportRequest sampleConfig sampleRequest),
          UpdateMessage 4 \<lparr>updText = Some (js ''Hel''), updThoughts = Some [], updDurationMs = None\<rparr>,
          AddMessage 5 (failureNotice cancelMessage) System SystemNotification,
          SetFailedStepInfo (failedStepPayload sampleConfig sampleRequest 5),
          SetIsInternalDiscussionActive False]\<rparr>)"
    unfolding executeStep_def s0 s1 s2
    by (simp add: attemptStart_def streamUpdates_def ch req emptyWorld_def emit_def ne five two four)
  show ?thesis
    using run by (simp add: abortedAttempt_def generateResponse_abortedMidStream)
qed

section \<open>Claims about the Directive Parser\<close>

text \<open>
  C6. For the reply \<open>Hello\<close>, a newline and a fenced block tagged \<open>json\<close> that holds the
  object with one \<open>append\<close> directive of content \<open>X\<close> and \<open>discussion_complete\<close> true, the
  parser returns the spoken text \<open>Hello\<close>, a directive list with that one directive (as
  parsed, an object with the members \<open>action\<close> and \<open>content\<close>) and the end signal true.
\<close>

theorem parse_example_reply:
  "parseAIResponse exampleReply =
     \<lparr>spokenText = js ''Hello'',
      notepadUpdate =
        Some \<lparr>modifications =
                 Some [JObject [(js ''action'', JString (js ''append'')),
                                (js ''content'', JString (js ''X''))]],
               error = None\<rparr>,
      discussionShouldEnd = True\<rparr>"
  by (simp add: parseAIResponse_def selectCandidate_exampleReply exampleJson_nonempty
      robustJsonParse_exampleJson mods_exampleValue ended_exampleValue isObject_exampleValue
      removeJsonText_exampleReply fence_nonempty buildResponse_def placeholderText_def trim_Hello)

text \<open>
  C4, as stated, fails in both directions. A fenced block with an empty body is present
  and its body cannot be parsed, yet no error is recorded, since an empty candidate is
  skipped. A fenced block holding \<open>42\<close> is parsed at the first attempt, yet an error is
  recorded, since the value is not an object.
\<close>

theorem fenced_block_error_mismatch:
  "matchFences emptyFenceReply \<noteq> [] \<and>
   unparsableAfterRepairs (snd (last (matchFences emptyFenceReply))) \<and>
   parsingErrorOf (parseAIResponse emptyFenceReply) = None \<and>
   matchFences numberFenceReply \<noteq> [] \<and>
   JSON_parse (snd (last (matchFences numberFenceReply))) = Some (JNumber (js ''42'')) \<and>
   \<not> unparsableAfterRepairs (snd (last (matchFences numberFenceReply))) \<and>
   parsingErrorOf (parseAIResponse numberFenceReply) = Some parseErrorMessage"
proof -
  have e: "matchFences emptyFenceReply \<noteq> []" "snd (last (matchFences emptyFenceReply)) = []"
    using last_fenced_body[OF matchFences_emptyFenceReply] by simp_all
  have n: "matchFences numberFenceReply \<noteq> []" "snd (last (matchFences numberFenceReply)) = js ''42''"
    using last_fenced_body[OF matchFences_numberFenceReply] by simp_all
  have ne: "js ''42'' \<noteq> []" by (simp add: js_def)
  have r: "robustJsonParse (js ''42'') = JNumber (js ''42'')"
    by (simp add: robustJsonParse_def JSON_parse_42 ne)
  have "parsingErrorOf (parseAIResponse emptyFenceReply) = None"
    using parsingError_fenced[OF e(1)] e(2) by simp
  moreover have "parsingErrorOf (parseAIResponse numberFenceReply) = Some parseErrorMessage"
    using parsingError_fenced[OF n(1)] n(2) r ne by simp
  moreover have "\<not> unparsableAfterRepairs (js ''42'')"
    by (simp add: unparsableAfterRepairs_def JSON_parse_42)
  ultimately show ?thesis
    using e n unparsable_empty JSON_parse_42 by simp
qed

text \<open>
  C4, amended. A parse error is recorded exactly when a fenced block is present, the body
  of the last one is not empty and \<open>robustJsonParse\<close> of it gives neither an object nor an
  array. So a reply without a fenced block (a candidate found by the key search) never
  records one, and a non-empty body that stays unparsable after the three repairs always
  does. With a parse error the payload holds the error and no directive, the end signal is
  false, and \<open>executeStep\<close> still returns the parsed response.
\<close>

theorem parse_error_condition:
  "parsingErrorOf (parseAIResponse t) =
     (if matchFences t \<noteq> [] \<and> snd (last (matchFences t)) \<noteq> [] \<and>
         \<not> isObjectValue (robustJsonParse (snd (last (matchFences t))))
      then Some parseErrorMessage else None) \<and>
   (matchFences t = [] \<longrightarrow> parsingErrorOf (parseAIResponse t) = None) \<and>
   (matchFences t \<noteq> [] \<and> snd (last (matchFences t)) \<noteq> [] \<and>
      unparsableAfterRepairs (snd (last (matchFences t))) \<longrightarrow>
    parsingErrorOf (parseAIResponse t) = Some parseErrorMessage) \<and>
   (parsingErrorOf (parseAIResponse t) \<noteq> None \<longrightarrow>
    notepadUpdate (parseAIResponse t) =
      Some \<lparr>modifications = None, error = Some parseErrorMessage\<rparr> \<and>
    discussionShouldEnd (parseAIResponse t) = False) \<and>
   (\<not> cancelledAtStart (env 0) \<and> \<not> cancelledAfterCall (env 0) \<and>
      outcome (env 0) = Returned r \<and> failureOf (env 0) = None \<and> responseText r = t \<longrightarrow>
    fst (executeStep cfg req env w) = Inr (Some (parseAIResponse t)))"
proof (intro conjI impI)
  show "parsingErrorOf (parseAIResponse t) =
     (if matchFences t \<noteq> [] \<and> snd (last (matchFences t)) \<noteq> [] \<and>
         \<not> isObjectValue (robustJsonParse (snd (last (matchFences t))))
      then Some parseErrorMessage else None)"
    using parsingError_fenced[of t] parsingError_unfenced[of t] by (cases "matchFences t = []") simp_all
next
  assume "matchFences t = []"
  then show "parsingErrorOf (parseAIResponse t) = None" by (rule parsingError_unfenced)
next
  assume a: "matchFences t \<noteq> [] \<and> snd (last (matchFences t)) \<noteq> [] \<and>
      unparsableAfterRepairs (snd (last (matchFences t)))"
  then have "robustJsonParse (snd (last (matchFences t))) = JNull"
    using robustJsonParse_unparsable by blast
  then show "parsingErrorOf (parseAIResponse t) = Some parseErrorMessage"
    using a parsingError_fenced[of t] by simp
next
  assume "parsingErrorOf (parseAIResponse t) \<noteq> None"
  then show "notepadUpdate (parseAIResponse t) =
      Some \<lparr>modifications = None, error = Some parseErrorMessage\<rparr>"
    using parseAIResponse_error_payload by blast
next
  assume "parsingErrorOf (parseAIResponse t) \<noteq> None"
  then show "discussionShouldEnd (parseAIResponse t) = False"
    using parseAIResponse_error_payload by blast
next
  assume "\<not> cancelledAtStart (env 0) \<and> \<not> cancelledAfterCall (env 0) \<and>
      outcome (env 0) = Returned r \<and> failureOf (env 0) = None \<and> responseText r = t"
  then show "fst (executeStep cfg req env w) = Inr (Some (parseAIResponse t))"
    using executeStep_first_attempt_success[of env r cfg req w] by auto
qed

theorem parse_error_condition_witness:
  "matchFences proseFenceReply \<noteq> [] \<and>
   snd (last (matchFences proseFenceReply)) \<noteq> [] \<and>
   unparsableAfterRepairs (snd (last (matchFences proseFenceReply))) \<and>
   parsingErrorOf (parseAIResponse proseFenceReply) = Some parseErrorMessage \<and>
   notepadUpdate (parseAIResponse proseFenceReply) =
     Some \<lparr>modifications = None, error = Some parseErrorMessage\<rparr> \<and>
   discussionShouldEnd (parseAIResponse proseFenceReply) = False \<and>
   matchFences heuristicFailReply = [] \<and>
   parsingErrorOf (parseAIResponse heuristicFailReply) = None \<and>
   \<not> cancelledAtStart parseErrorAttempt \<and> \<not> cancelledAfterCall parseErrorAttempt \<and>
   outcome parseErrorAttempt =
     Returned \<lparr>responseText = proseFenceReply, responseThoughts = None, durationMs = 5,
               responseError = None\<rparr> \<and>
   failureOf parseErrorAttempt = None \<and>
   fst (executeStep sampleConfig sampleRequest (\<lambda>k. parseErrorAttempt) emptyWorld) =
     Inr (Some (parseAIResponse proseFenceReply))"
proof -
  have p: "matchFences proseFenceReply \<noteq> []"
    "snd (last (matchFences proseFenceReply)) = js ''not json''"
    using last_fenced_body[OF matchFences_proseFenceReply] by simp_all
  have ne: "js ''not json'' \<noteq> []" by (simp add: js_def)
  have u: "unparsableAfterRepairs (snd (last (matchFences proseFenceReply)))"
    using p(2) unparsable_not_json by simp
  have a: "\<not> cancelledAtStart parseErrorAttempt" "\<not> cancelledAfterCall parseErrorAttempt"
    "outcome parseErrorAttempt =
       Returned \<lparr>responseText = proseFenceReply, responseThoughts = None, durationMs = 5,
                 responseError = None\<rparr>"
    by (simp_all add: parseErrorAttempt_def)
  note main = parse_error_condition[of proseFenceReply "\<lambda>k. parseErrorAttempt"
      "\<lparr>responseText = proseFenceReply, responseThoughts = None, durationMs = 5,
        responseError = None\<rparr>" sampleConfig sampleRequest emptyWorld]
  note heur = parse_error_condition[of heuristicFailReply "\<lambda>k. parseErrorAttempt"
      "\<lparr>responseText = proseFenceReply, responseThoughts = None, durationMs = 5,
        responseError = None\<rparr>" sampleConfig sampleRequest emptyWorld]
  show ?thesis
    using main heur p ne u a failureOf_parseErrorAttempt matchFences_heuristicFailReply
      robustJsonParse_unparsable[OF unparsable_not_json]
    by simp
qed

text \<open>
  C10. A directive whose action tag is none of the six tags of the \<open>switch\<close> leaves the
  state of the engine as it is: the document is unchanged and nothing is added to the
  errors, so adding such a directive at the end of a list does not change the result. The
  parser stores the entries of a parsed \<open>notepad_modifications\<close> array as they are,
  whatever they hold.
\<close>

theorem unknown_action_is_skipped:
  assumes "action m \<notin> set recognizedActions"
  shows "applyModification lower idx st m = st \<and>
    applyNotepadModifications lower doc (ms @ [m]) = applyNotepadModifications lower doc ms \<and>
    (fst (selectCandidate t) = Some c \<and> c \<noteq> [] \<and> robustJsonParse c = JObject members \<and>
       jsonGet members (js ''notepad_modifications'') = Some (JArray entries) \<and> entries \<noteq> [] \<longrightarrow>
     notepadUpdate (parseAIResponse t) = Some \<lparr>modifications = Some entries, error = None\<rparr>)"
proof (intro conjI impI)
  show step: "applyModification lower idx st m = st" for idx st
    using assms by (simp add: applyModification_def recognizedActions_def)
  show "applyNotepadModifications lower doc (ms @ [m]) = applyNotepadModifications lower doc ms"
    by (simp add: applyNotepadModifications_snoc step)
next
  assume a: "fst (selectCandidate t) = Some c \<and> c \<noteq> [] \<and> robustJsonParse c = JObject members \<and>
       jsonGet members (js ''notepad_modifications'') = Some (JArray entries) \<and> entries \<noteq> []"
  then obtain r where "selectCandidate t = (Some c, r)" by (cases "selectCandidate t") auto
  then show "notepadUpdate (parseAIResponse t) = Some \<lparr>modifications = Some entries, error = None\<rparr>"
    using a by (simp add: parseAIResponse_def Let_def buildResponse_def)
qed

theorem unknown_action_is_skipped_witness:
  "action unknownDirective \<notin> set recognizedActions \<and>
   applyNotepadModifications asciiLowerCase docAB ([] @ [unknownDirective]) =
     \<lparr>newContent = docAB, errors = []\<rparr> \<and>
   fst (selectCandidate unknownReply) = Some unknownJson \<and>
   robustJsonParse unknownJson =
     JObject [(js ''notepad_modifications'',
               JArray [JObject [(js ''action'', JString (js ''delete_all''))]])] \<and>
   jsonGet [(js ''notepad_modifications'',
             JArray [JObject [(js ''action'', JString (js ''delete_all''))]])]
     (js ''notepad_modifications'') =
     Some (JArray [JObject [(js ''action'', JString (js ''delete_all''))]]) \<and>
   notepadUpdate (parseAIResponse unknownReply) =
     Some \<lparr>modifications = Some [JObject [(js ''action'', JString (js ''delete_all''))]],
           error = None\<rparr>"
proof -
  let ?members = "[(js ''notepad_modifications'',
               JArray [JObject [(js ''action'', JString (js ''delete_all''))]])]"
  have h: "action unknownDirective \<notin> set recognizedActions"
    by (simp add: unknownDirective_def recognizedActions_def js_def)
  have u: "matchFences unknownReply \<noteq> []" "snd (last (matchFences unknownReply)) = unknownJson"
    using last_fenced_body[OF matchFences_unknownReply] by simp_all
  have s: "fst (selectCandidate unknownReply) = Some unknownJson"
    using u by (simp add: selectCandidate_fenced)
  have ne: "unknownJson \<noteq> []" by (simp add: unknownJson_def js_def)
  have r: "robustJsonParse unknownJson = JObject ?members"
    by (simp add: robustJsonParse_def JSON_parse_unknownJson ne)
  have g: "jsonGet ?members (js ''notepad_modifications'') =
      Some (JArray [JObject [(js ''action'', JString (js ''delete_all''))]])"
    by (simp add: jsonGet_def)
  have e: "applyNotepadModifications asciiLowerCase docAB [] = \<lparr>newContent = docAB, errors = []\<rparr>"
    by (simp add: applyNotepadModifications_def)
  show ?thesis
    using h s ne r g e
      unknown_action_is_skipped[OF h, of asciiLowerCase 0 "\<lparr>newContent = docAB, errors = []\<rparr>"
        docAB "[]" unknownReply unknownJson ?members
        "[JObject [(js ''action'', JString (js ''delete_all''))]]"]
    by simp
qed

end
